theory Spec2Isabelle
  imports Main "HOL-Library.Signed_Division"
begin

section \<open>Conventions of the embedding\<close>

text \<open>
  The C++ sources \<^verbatim>\<open>src/cctz.h\<close>, \<^verbatim>\<open>src/cctz_if.h\<close>, \<^verbatim>\<open>src/cctz_libc.cc\<close> and
  \<^verbatim>\<open>src/cctz_fmt.cc\<close> are embedded function by function.

  \<^item> Integer values of every width are HOL integers. The C++ operators \<^verbatim>\<open>/\<close> and \<^verbatim>\<open>%\<close>
    truncate towards zero and are written \<open>sdiv\<close> and \<open>smod\<close>. A narrowing conversion to
    \<^verbatim>\<open>int64_t\<close> or \<^verbatim>\<open>int\<close> reduces modulo the width and is written out (\<open>int64_cast\<close>,
    \<open>int_cast\<close>). \<^verbatim>\<open>std::time_t\<close> is a 64-bit signed integer. Overflow of signed arithmetic is
    undefined in C++. In \<^verbatim>\<open>DayOrdinal\<close> every 64-bit and 32-bit operation is written with
    the two's-complement wrap-around that the compiled code has; the other definitions compute
    the mathematical value, and every theorem whose inputs could reach such an overflow there
    states the range of its inputs.
  \<^item> A \<^verbatim>\<open>time_point\<close> and a \<^verbatim>\<open>duration\<close> are their counts of nanoseconds.
  \<^item> A \<^verbatim>\<open>const char*\<close> into a NUL-terminated string is the list of the characters from the
    pointer up to the terminator; reading the terminator is reading the empty list
    (\<open>peek\<close>), and the null pointer is \<open>None\<close>.
  \<^item> The functions of the C library that the sources call are parameters, gathered in the
    record \<open>host\<close>.
\<close>

definition int64_cast :: "int \<Rightarrow> int" where
  "int64_cast x = (x + 9223372036854775808) mod 18446744073709551616 - 9223372036854775808"

definition int_cast :: "int \<Rightarrow> int" where
  "int_cast x = (x + 2147483648) mod 4294967296 - 2147483648"

definition INT64_MIN :: int where
  "INT64_MIN = - 9223372036854775808"

definition INT64_MAX :: int where
  "INT64_MAX = 9223372036854775807"

definition kintmax :: int where
  "kintmax = 2147483647"

definition kintmin :: int where
  "kintmin = - 2147483648"

definition NUL :: char where
  "NUL = CHR 0x00"

definition peek :: "string \<Rightarrow> char" where
  "peek s = (case s of [] \<Rightarrow> NUL | c # _ \<Rightarrow> c)"

definition c_str :: "string \<Rightarrow> string" where
  "c_str s = takeWhile (\<lambda>c. c \<noteq> NUL) s"

section \<open>The data model of cctz.h\<close>

record Breakdown =
  year :: int
  month :: int
  day :: int
  hour :: int
  minute :: int
  second :: int
  subsecond :: int
  weekday :: int
  yearday :: int
  offset :: int
  is_dst :: bool
  abbr :: string

datatype Kind = UNIQUE | SKIPPED | REPEATED

record TimeInfo =
  kind :: Kind
  pre :: int
  trans :: int
  post :: int
  normalized :: bool

text \<open>The \<^verbatim>\<open>std::tm\<close> of the C library, with the \<^verbatim>\<open>tm_gmtoff\<close> and \<^verbatim>\<open>tm_zone\<close> extensions
  that \<^verbatim>\<open>BreakTime\<close> reads.\<close>

record tm =
  tm_sec :: int
  tm_min :: int
  tm_hour :: int
  tm_mday :: int
  tm_mon :: int
  tm_year :: int
  tm_wday :: int
  tm_yday :: int
  tm_isdst :: int
  tm_gmtoff :: int
  tm_zone :: string

text \<open>The C library. \<open>strftime h n f t\<close> is the text that \<^verbatim>\<open>strftime(buf, n, f, &t)\<close> places
  in the buffer (empty when it returns 0); \<open>strptime h d f t\<close> is \<open>None\<close> when
  \<^verbatim>\<open>strptime(d, f, &t)\<close> returns the null pointer, else the unparsed rest of \<open>d\<close> and the
  updated \<^verbatim>\<open>tm\<close>; \<open>mktime h t\<close> is the returned \<^verbatim>\<open>time_t\<close> and the normalised \<^verbatim>\<open>tm\<close>.\<close>

record host =
  gmtime_r :: "int \<Rightarrow> tm"
  localtime_r :: "int \<Rightarrow> tm"
  mktime :: "tm \<Rightarrow> int \<times> tm"
  strftime :: "nat \<Rightarrow> string \<Rightarrow> tm \<Rightarrow> string"
  strptime :: "string \<Rightarrow> string \<Rightarrow> tm \<Rightarrow> (string \<times> tm) option"

section \<open>cctz_if.h\<close>

text \<open>\<^verbatim>\<open>duration_cast\<close> to whole seconds divides the 128-bit count, truncating towards zero,
  and converts the quotient to \<^verbatim>\<open>int64_t\<close>.\<close>

definition ToUnixSeconds :: "int \<Rightarrow> int" where
  "ToUnixSeconds tp = int64_cast (tp sdiv 1000000000)"

definition FromUnixSeconds :: "int \<Rightarrow> int" where
  "FromUnixSeconds t = t * 1000000000"

text \<open>The interface \<^verbatim>\<open>TimeZoneIf\<close>: its two virtual functions.\<close>

record TimeZoneIf =
  if_BreakTime :: "int \<Rightarrow> Breakdown"
  if_MakeTimeInfo :: "int \<Rightarrow> int \<Rightarrow> int \<Rightarrow> int \<Rightarrow> int \<Rightarrow> int \<Rightarrow> TimeInfo"

section \<open>cctz_libc.cc\<close>

text \<open>The members \<^verbatim>\<open>local_\<close>, \<^verbatim>\<open>offset_\<close> and \<^verbatim>\<open>abbr_\<close> of the class. The constructor leaves
  the last two unset for "localtime", where no member function reads them.\<close>

record TimeZoneLibC =
  tz_local :: bool
  tz_offset :: int
  tz_abbr :: string

definition TimeZoneLibC_new :: "string \<Rightarrow> TimeZoneLibC" where
  "TimeZoneLibC_new name =
     \<lparr> tz_local = (name = ''localtime''), tz_offset = 0, tz_abbr = ''UTC'' \<rparr>"

text \<open>The first statements of \<^verbatim>\<open>BreakTime\<close>: the split of the instant into the
  \<^verbatim>\<open>time_t\<close> handed to the C library and the subsecond stored in the Breakdown.\<close>

definition BreakTime_split :: "int \<Rightarrow> int \<times> int" where
  "BreakTime_split tp =
     (let t = ToUnixSeconds tp;
          subsecond = tp - FromUnixSeconds t
      in if subsecond < 0 then (t - 1, subsecond + 1000000000) else (t, subsecond))"

definition TimeZoneLibC_BreakTime :: "host \<Rightarrow> TimeZoneLibC \<Rightarrow> int \<Rightarrow> Breakdown" where
  "TimeZoneLibC_BreakTime h z tp =
     (let (t, sub) = BreakTime_split tp;
          tm0 = (if tz_local z then localtime_r h t
                 else (let g = gmtime_r h t in g\<lparr> tm_gmtoff := tm_gmtoff g + tz_offset z \<rparr>))
      in \<lparr> year = tm_year tm0 + 1900,
           month = tm_mon tm0 + 1,
           day = tm_mday tm0,
           hour = tm_hour tm0,
           minute = tm_min tm0,
           second = tm_sec tm0,
           subsecond = sub,
           weekday = (if tm_wday tm0 \<noteq> 0 then tm_wday tm0 else 7),
           yearday = tm_yday tm0 + 1,
           offset = tm_gmtoff tm0,
           is_dst = (tm_isdst tm0 \<noteq> 0),
           abbr = (if tz_local z then tm_zone tm0 else tz_abbr z) \<rparr>)"

text \<open>\<^verbatim>\<open>NormalizeField(base, &val, &normalized)\<close>: the carry, the new \<^verbatim>\<open>*val\<close> and the new
  \<^verbatim>\<open>*normalized\<close>.\<close>

definition NormalizeField :: "int \<Rightarrow> int \<Rightarrow> bool \<Rightarrow> int \<times> int \<times> bool" where
  "NormalizeField base val nrm =
     (let carry = val sdiv base;
          v = val smod base;
          carry' = (if v < 0 then carry - 1 else carry);
          v' = (if v < 0 then v + base else v)
      in (carry', v', (if carry' \<noteq> 0 then True else nrm)))"

definition IsLeap :: "int \<Rightarrow> bool" where
  "IsLeap y = (y smod 4 = 0 \<and> (if y smod 100 \<noteq> 0 then True else y smod 400 = 0))"

definition kDaysPerMonth :: "bool \<Rightarrow> int list" where
  "kDaysPerMonth leap =
     (if leap then [-1, 31, 29, 31, 30, 31, 30, 31, 31, 30, 31, 30, 31]
      else [-1, 31, 28, 31, 30, 31, 30, 31, 31, 30, 31, 30, 31])"

definition kDaysPerYear :: "bool \<Rightarrow> int" where
  "kDaysPerYear leap = (if leap then 366 else 365)"

text \<open>\<^verbatim>\<open>DayOrdinal(year, month, day)\<close>: \<^verbatim>\<open>year\<close> and \<^verbatim>\<open>era\<close> are 64-bit, \<^verbatim>\<open>yoe\<close>, \<^verbatim>\<open>doy\<close> and
  \<^verbatim>\<open>doe\<close> are \<^verbatim>\<open>int\<close>; each operation wraps at the width it is computed in.\<close>

definition DayOrdinal :: "int \<Rightarrow> int \<Rightarrow> int \<Rightarrow> int" where
  "DayOrdinal y0 m d =
     (let y = int64_cast (y0 - (if m \<le> 2 then 1 else 0));
          era = (if y \<ge> 0 then y else int64_cast (y - 399)) sdiv 400;
          yoe = int_cast (int64_cast (y - int64_cast (era * 400)));
          doy = int_cast (int_cast (int_cast (int_cast (153 * int_cast (m + (if m > 2 then - 3 else 9)))
                  + 2) sdiv 5 + d) - 1);
          doe = int_cast (int_cast (int_cast (int_cast (yoe * 365) + yoe sdiv 4) - yoe sdiv 100) + doy)
      in int64_cast (int64_cast (int64_cast (era * 146097) + doe) - 719468))"

text \<open>The three loops of \<^verbatim>\<open>MakeTimeInfo\<close> over (day, year) and (day, month, year).\<close>

function days_forward :: "int \<Rightarrow> int \<Rightarrow> int \<times> int" where
  "days_forward d y =
     (if d > kDaysPerYear (IsLeap y) then days_forward (d - kDaysPerYear (IsLeap y)) (y + 1)
      else (d, y))"
  by pat_completeness auto
termination
  by (relation "measure (\<lambda>(d, y). nat d)") (auto simp: kDaysPerYear_def split: if_splits)

function days_backward :: "int \<Rightarrow> int \<Rightarrow> int \<times> int" where
  "days_backward d y =
     (if d \<le> 0 then days_backward (d + kDaysPerYear (IsLeap (y - 1))) (y - 1)
      else (d, y))"
  by pat_completeness auto
termination
  by (relation "measure (\<lambda>(d, y). nat (1 - d))") (auto simp: kDaysPerYear_def)

text \<open>The month stays in [1:12] throughout the last loop; outside the table the read of
  \<^verbatim>\<open>kDaysPerMonth\<close> is undefined and the model stops.\<close>

function months_forward :: "int \<Rightarrow> int \<Rightarrow> int \<Rightarrow> int \<times> int \<times> int" where
  "months_forward d m y =
     (if 1 \<le> m \<and> m \<le> 12 \<and> d > kDaysPerMonth (IsLeap y) ! nat m
      then (if m + 1 > 12 then months_forward (d - kDaysPerMonth (IsLeap y) ! nat m) 1 (y + 1)
            else months_forward (d - kDaysPerMonth (IsLeap y) ! nat m) (m + 1) y)
      else (d, m, y))"
  by pat_completeness auto

lemma kDaysPerMonth_pos:
  "1 \<le> m \<Longrightarrow> m \<le> 12 \<Longrightarrow> 28 \<le> kDaysPerMonth l ! nat m"
proof -
  assume "1 \<le> m" "m \<le> 12"
  then have "m = 1 \<or> m = 2 \<or> m = 3 \<or> m = 4 \<or> m = 5 \<or> m = 6 \<or> m = 7 \<or> m = 8
      \<or> m = 9 \<or> m = 10 \<or> m = 11 \<or> m = 12" by arith
  then show ?thesis by (auto simp: kDaysPerMonth_def)
qed

termination months_forward
proof (relation "measure (\<lambda>(d, m, y). nat d)")
  show "wf (measure (\<lambda>(d, m, y). nat d))" by simp
next
  fix d m y :: int
  assume "1 \<le> m \<and> m \<le> 12 \<and> kDaysPerMonth (IsLeap y) ! nat m < d"
  then show "((d - kDaysPerMonth (IsLeap y) ! nat m, 1, y + 1), (d, m, y))
      \<in> measure (\<lambda>(d, m, y). nat d)"
    using kDaysPerMonth_pos [of m "IsLeap y"] by simp
next
  fix d m y :: int
  assume "1 \<le> m \<and> m \<le> 12 \<and> kDaysPerMonth (IsLeap y) ! nat m < d"
  then show "((d - kDaysPerMonth (IsLeap y) ! nat m, m + 1, y), (d, m, y))
      \<in> measure (\<lambda>(d, m, y). nat d)"
    using kDaysPerMonth_pos [of m "IsLeap y"] by simp
qed

declare days_forward.simps [simp del] days_backward.simps [simp del]
  months_forward.simps [simp del]

text \<open>The branch of \<^verbatim>\<open>MakeTimeInfo\<close> for a zone that is not "localtime": the normalised
  fields and the flag, then the conversion.\<close>

definition normalize_civil ::
  "int \<Rightarrow> int \<Rightarrow> int \<Rightarrow> int \<Rightarrow> int \<Rightarrow> int \<Rightarrow> (int \<times> int \<times> int \<times> int \<times> int \<times> int) \<times> bool" where
  "normalize_civil y0 mon0 day0 hour0 min0 sec0 =
     (let (c1, sec, n1) = NormalizeField 60 sec0 False;
          (c2, mi, n2) = NormalizeField 60 (min0 + c1) n1;
          (c3, hh, n3) = NormalizeField 24 (hour0 + c2) n2;
          day1 = day0 + c3;
          (c4, mon1, n4) = NormalizeField 12 (mon0 - 1) n3;
          y1 = y0 + c4;
          mon = mon1 + 1;
          y2 = y1 + (if mon > 2 then 1 else 0);
          (day2, y3) = days_forward day1 y2;
          (day3, y4) = days_backward day2 y3;
          y5 = y4 - (if mon > 2 then 1 else 0);
          (day4, mon', y6) = months_forward day3 mon y5
      in ((y6, mon', day4, hh, mi, sec), n4))"

definition TimeZoneLibC_MakeTimeInfo ::
  "host \<Rightarrow> TimeZoneLibC \<Rightarrow> int \<Rightarrow> int \<Rightarrow> int \<Rightarrow> int \<Rightarrow> int \<Rightarrow> int \<Rightarrow> TimeInfo" where
  "TimeZoneLibC_MakeTimeInfo h z y0 mon0 day0 hour0 min0 sec0 =
     (let (t, nrm) =
        (if tz_local z then
           (let tm0 = \<lparr> tm_sec = sec0, tm_min = min0, tm_hour = hour0, tm_mday = day0,
                        tm_mon = mon0 - 1, tm_year = int_cast (y0 - 1900), tm_wday = 0,
                        tm_yday = 0, tm_isdst = -1, tm_gmtoff = 0, tm_zone = [] \<rparr>;
                (t, tm1) = mktime h tm0
            in (t, \<not> (tm_year tm1 = y0 - 1900 \<and> tm_mon tm1 = mon0 - 1 \<and> tm_mday tm1 = day0
                      \<and> tm_hour tm1 = hour0 \<and> tm_min tm1 = min0 \<and> tm_sec tm1 = sec0)))
         else
           (let ((y, mon, dd, hh, mi, sec), n) = normalize_civil y0 mon0 day0 hour0 min0 sec0
            in (((DayOrdinal y mon dd * 24 + hh) * 60 + mi) * 60 + sec, n)))
      in \<lparr> kind = UNIQUE, pre = FromUnixSeconds t, trans = FromUnixSeconds t,
           post = FromUnixSeconds t, normalized = nrm \<rparr>)"

definition TimeZoneLibC_if :: "host \<Rightarrow> TimeZoneLibC \<Rightarrow> TimeZoneIf" where
  "TimeZoneLibC_if h z =
     \<lparr> if_BreakTime = TimeZoneLibC_BreakTime h z,
       if_MakeTimeInfo = TimeZoneLibC_MakeTimeInfo h z \<rparr>"

text \<open>Canonical dates and the civil order, for stating the monotonicity of \<open>DayOrdinal\<close>:
  the month is in [1:12] and the day within the month's length in \<^verbatim>\<open>kDaysPerMonth\<close>.\<close>

definition canonical_date :: "int \<Rightarrow> int \<Rightarrow> int \<Rightarrow> bool" where
  "canonical_date y m d = (1 \<le> m \<and> m \<le> 12 \<and> 1 \<le> d \<and> d \<le> kDaysPerMonth (IsLeap y) ! nat m)"

definition civil_less :: "int \<Rightarrow> int \<Rightarrow> int \<Rightarrow> int \<Rightarrow> int \<Rightarrow> int \<Rightarrow> bool" where
  "civil_less y1 m1 d1 y2 m2 d2 = (y1 < y2 \<or> (y1 = y2 \<and> (m1 < m2 \<or> (m1 = m2 \<and> d1 < d2))))"

text \<open>Auxiliary notions of the proofs: the days before 1 March of year \<open>y\<close>, counted from
  1 March of year 0, the day of the March-based year as \<open>DayOrdinal\<close> computes it, and the
  number of days from 1970-01-01 to a date as a mathematical integer.\<close>

definition days_before_year :: "int \<Rightarrow> int" where
  "days_before_year y = 365 * y + y div 4 - y div 100 + y div 400"

definition doy :: "int \<Rightarrow> int \<Rightarrow> int" where
  "doy m d = (153 * (m + (if m > 2 then -3 else 9)) + 2) sdiv 5 + d - 1"

definition civil_days :: "int \<Rightarrow> int \<Rightarrow> int \<Rightarrow> int" where
  "civil_days y0 m d = days_before_year (y0 - (if m \<le> 2 then 1 else 0)) + doy m d - 719468"


section \<open>cctz_fmt.cc: formatting\<close>

text \<open>Modelled from the spec: the free functions \<^verbatim>\<open>BreakTime(tp, tz)\<close>,
  \<^verbatim>\<open>MakeTimeInfo(..., tz)\<close> and \<^verbatim>\<open>UTCTimeZone()\<close> of the zone facade are declared in
  \<^verbatim>\<open>cctz.h\<close> and defined outside the given sources. Following sections 2, 4.3 and 4.4 of the
  spec, a zone handle stands for its backend, the two functions delegate to it, and the UTC zone
  is the backend of \<^verbatim>\<open>cctz_libc.cc\<close> under a name other than "localtime".\<close>

definition BreakTime :: "int \<Rightarrow> TimeZoneIf \<Rightarrow> Breakdown" where
  "BreakTime tp tz = if_BreakTime tz tp"

definition MakeTimeInfo ::
  "int \<Rightarrow> int \<Rightarrow> int \<Rightarrow> int \<Rightarrow> int \<Rightarrow> int \<Rightarrow> TimeZoneIf \<Rightarrow> TimeInfo" where
  "MakeTimeInfo y mon d hh mi ss tz = if_MakeTimeInfo tz y mon d hh mi ss"

definition UTCTimeZone :: "host \<Rightarrow> TimeZoneIf" where
  "UTCTimeZone h = TimeZoneLibC_if h (TimeZoneLibC_new ''UTC'')"

definition ToTM :: "Breakdown \<Rightarrow> tm" where
  "ToTM bd =
     \<lparr> tm_sec = second bd, tm_min = minute bd, tm_hour = hour bd, tm_mday = day bd,
       tm_mon = month bd - 1,
       tm_year = (if year bd < kintmin + 1900 then kintmin
                  else if year bd - 1900 > kintmax then kintmax
                  else int_cast (year bd - 1900)),
       tm_wday = weekday bd smod 7, tm_yday = yearday bd - 1,
       tm_isdst = (if is_dst bd then 1 else 0), tm_gmtoff = 0, tm_zone = [] \<rparr>"

definition kDigits :: string where
  "kDigits = ''0123456789''"

text \<open>\<^verbatim>\<open>kDigits[i]\<close>: index 10 is the terminator; a read outside the array is undefined.\<close>

definition kDigits_at :: "int \<Rightarrow> char" where
  "kDigits_at i = (if 0 \<le> i \<and> i < 10 then kDigits ! nat i else if i = 10 then NUL else undefined)"

text \<open>\<^verbatim>\<open>strchr(s, c) - s\<close>: the index of the first \<open>c\<close> in \<open>s\<close>; the terminator of \<open>s\<close> matches
  NUL; \<open>None\<close> is the null pointer.\<close>

definition strchr :: "string \<Rightarrow> char \<Rightarrow> nat option" where
  "strchr s c = (if c \<in> set s then Some (length (takeWhile (\<lambda>x. x \<noteq> c) s))
                 else if c = NUL then Some (length s) else None)"

text \<open>\<^verbatim>\<open>isspace\<close> and \<^verbatim>\<open>isdigit\<close> in the "C" locale.\<close>

definition isspace :: "char \<Rightarrow> bool" where
  "isspace c = (c = CHR '' '' \<or> c = CHR 0x09 \<or> c = CHR 0x0A \<or> c = CHR 0x0B \<or> c = CHR 0x0C
                \<or> c = CHR 0x0D)"

definition isdigit :: "char \<Rightarrow> bool" where
  "isdigit c = (c \<in> set kDigits)"

text \<open>The scratch buffer \<^verbatim>\<open>buf\<close> of \<^verbatim>\<open>Format\<close> is written backwards from its end \<^verbatim>\<open>ep\<close>. A
  pointer into it is modelled by the characters from the pointer to \<^verbatim>\<open>ep\<close>, so the write
  \<^verbatim>\<open>*--p = c\<close> puts \<open>c\<close> in front of the list, and the pointer has left the buffer when the list
  is longer than \<^verbatim>\<open>sizeof(buf)\<close>.\<close>

definition kDigits10_64 :: nat where
  "kDigits10_64 = 18"

definition sizeof_buf :: nat where
  "sizeof_buf = 3 + kDigits10_64"

text \<open>The \<^verbatim>\<open>do ... while (v /= 10)\<close> loop of \<^verbatim>\<open>Format64\<close>: the buffer and the remaining width.\<close>

function Format64_digits :: "string \<Rightarrow> int \<Rightarrow> int \<Rightarrow> string \<times> int" where
  "Format64_digits s width v =
     (if v sdiv 10 \<noteq> 0 then Format64_digits (kDigits_at (v smod 10) # s) (width - 1) (v sdiv 10)
      else (kDigits_at (v smod 10) # s, width - 1))"
  by pat_completeness auto
termination
proof (relation "measure (\<lambda>(s, width, v). nat \<bar>v\<bar>)")
  show "wf (measure (\<lambda>(s, width, v). nat \<bar>v\<bar>))" by simp
next
  fix s :: string and width v :: int
  assume nz: "v sdiv 10 \<noteq> 0"
  have "\<bar>v sdiv 10\<bar> = \<bar>v\<bar> div 10"
    by (cases "v = 0") (simp_all add: signed_divide_int_def abs_mult)
  moreover from nz have "v \<noteq> 0" by auto
  then have "\<bar>v\<bar> div 10 < \<bar>v\<bar>" by simp
  ultimately show "((kDigits_at (v smod 10) # s, width - 1, v sdiv 10), (s, width, v))
      \<in> measure (\<lambda>(s, width, v). nat \<bar>v\<bar>)"
    by simp
qed

text \<open>\<^verbatim>\<open>while (--width >= 0) *--ep = '0'\<close>.\<close>

function Format64_pad :: "string \<Rightarrow> int \<Rightarrow> string" where
  "Format64_pad s width =
     (if width - 1 \<ge> 0 then Format64_pad (CHR ''0'' # s) (width - 1) else s)"
  by pat_completeness auto
termination
  by (relation "measure (\<lambda>(s, width). nat width)") auto

declare Format64_digits.simps [simp del] Format64_pad.simps [simp del]

definition Format64 :: "string \<Rightarrow> int \<Rightarrow> int \<Rightarrow> string" where
  "Format64 ep width v =
     (let neg = (v < 0);
          (s1, w1, v1) =
            (if v < 0 then
               (if v = INT64_MIN then
                  (let last_digit = - (v smod 10);
                       v' = v sdiv 10;
                       v'' = (if last_digit < 0 then v' + 1 else v');
                       last_digit' = (if last_digit < 0 then last_digit + 10 else last_digit)
                   in (kDigits_at last_digit' # ep, width - 1 - 1, - v''))
                else (ep, width - 1, - v))
             else (ep, width, v));
          (s2, w2) = Format64_digits s1 w1 v1;
          s3 = Format64_pad s2 w2
      in if neg then CHR ''-'' # s3 else s3)"

definition Format02d :: "string \<Rightarrow> int \<Rightarrow> string" where
  "Format02d ep v = kDigits_at ((v sdiv 10) smod 10) # kDigits_at (v smod 10) # ep"

definition FormatOffset :: "string \<Rightarrow> int \<Rightarrow> char \<Rightarrow> string" where
  "FormatOffset ep minutes0 sep =
     (let minutes = (if minutes0 < 0 then - minutes0 else minutes0);
          sign = (if minutes0 < 0 then CHR ''-'' else CHR ''+'');
          e1 = Format02d ep (minutes smod 60);
          e2 = (if sep \<noteq> NUL then sep # e1 else e1);
          e3 = Format02d e2 (minutes sdiv 60)
      in sign # e3)"

text \<open>\<^verbatim>\<open>FormatTM\<close>: \<^verbatim>\<open>strftime\<close> into buffers of 2, 4, 8 and 16 times the length of the
  format, until one call places some text.\<close>

fun FormatTM_try :: "host \<Rightarrow> string \<Rightarrow> tm \<Rightarrow> nat list \<Rightarrow> string" where
  "FormatTM_try h f t [] = []"
| "FormatTM_try h f t (i # is) =
     (let r = strftime h (length f * i) (c_str f) t
      in if r \<noteq> [] then r else FormatTM_try h f t is)"

definition FormatTM :: "host \<Rightarrow> string \<Rightarrow> string \<Rightarrow> tm \<Rightarrow> string" where
  "FormatTM h out f t = out @ FormatTM_try h f t [2, 4, 8, 16]"

text \<open>The digit loop of \<^verbatim>\<open>ParseInt\<close>: the pointer, the (negative) accumulated value and
  \<^verbatim>\<open>erange\<close>. The first argument is \<^verbatim>\<open>std::numeric_limits<T>::min()\<close>.\<close>

fun ParseInt_loop :: "int \<Rightarrow> string \<Rightarrow> int \<Rightarrow> int \<Rightarrow> string \<times> int \<times> bool" where
  "ParseInt_loop kmin [] val width = ([], val, False)"
| "ParseInt_loop kmin (c # cs) val width =
     (case strchr kDigits c of
        None \<Rightarrow> (c # cs, val, False)
      | Some d \<Rightarrow>
          if d \<ge> 10 then (c # cs, val, False)
          else if val < kmin sdiv 10 then (c # cs, val, True)
          else if val * 10 < kmin + int d then (c # cs, val * 10, True)
          else if width > 0 \<and> width - 1 = 0 then (cs, val * 10 - int d, False)
          else ParseInt_loop kmin cs (val * 10 - int d) (if width > 0 then width - 1 else width))"

text \<open>\<^verbatim>\<open>ParseInt\<close> from \<^verbatim>\<open>if (const char* const bp = dp)\<close> on: the digits and the checks,
  given \<^verbatim>\<open>neg\<close>, \<^verbatim>\<open>bp\<close> and the remaining width.\<close>

definition ParseInt_digits ::
  "int \<Rightarrow> bool \<Rightarrow> string \<Rightarrow> int \<Rightarrow> int \<Rightarrow> int \<Rightarrow> (string \<times> int) option" where
  "ParseInt_digits kmin neg bp width mn mx =
     (case ParseInt_loop kmin bp 0 width of (dp, val, erange) \<Rightarrow>
        if length dp \<noteq> length bp \<and> \<not> erange \<and> (neg \<or> val \<noteq> kmin) then
          (if (if neg then val \<noteq> 0 else True) then
             (let val' = (if neg then val else - val)
              in if mn \<le> val' \<and> val' \<le> mx then Some (dp, val') else None)
           else None)
        else None)"

text \<open>\<^verbatim>\<open>ParseInt(dp, width, min, max, &v)\<close>: \<open>None\<close> for the null pointer, else the returned
  pointer and the value stored in \<^verbatim>\<open>*vp\<close>, which is written only on success.\<close>

definition ParseInt ::
  "int \<Rightarrow> string option \<Rightarrow> int \<Rightarrow> int \<Rightarrow> int \<Rightarrow> (string \<times> int) option" where
  "ParseInt kmin dp0 width mn mx =
     (case dp0 of
        None \<Rightarrow> None
      | Some dp \<Rightarrow>
          if peek dp = CHR ''-'' then
            (if width \<le> 0 then ParseInt_digits kmin True (tl dp) width mn mx
             else if width - 1 \<noteq> 0 then ParseInt_digits kmin True (tl dp) (width - 1) mn mx
             else None)
          else ParseInt_digits kmin False dp width mn mx)"

definition kExp10 :: "int list" where
  "kExp10 = [1, 10, 100, 1000, 10000, 100000, 1000000, 10000000, 100000000, 1000000000,
     10000000000, 100000000000, 1000000000000, 10000000000000, 100000000000000,
     1000000000000000, 10000000000000000, 100000000000000000, 1000000000000000000]"

text \<open>Pointers into the format of \<^verbatim>\<open>Format\<close> are indices; \<^verbatim>\<open>end\<close> is the length, where the
  terminator is read.\<close>

definition char_at :: "string \<Rightarrow> nat \<Rightarrow> char" where
  "char_at f i = (if i < length f then f ! i else NUL)"

definition substr :: "string \<Rightarrow> nat \<Rightarrow> nat \<Rightarrow> string" where
  "substr f a b = take (b - a) (drop a f)"

definition skip_while :: "(char \<Rightarrow> bool) \<Rightarrow> string \<Rightarrow> nat \<Rightarrow> nat" where
  "skip_while P f i = i + length (takeWhile P (drop i f))"

text \<open>The \<^verbatim>\<open>switch\<close> over the simple specifiers: what the scratch buffer holds from the lowest
  address written to \<^verbatim>\<open>ep\<close>, and the text appended to the result. The terminator, which
  \<^verbatim>\<open>strchr\<close> also finds in "YmdeHMSzZs", matches no case.\<close>

definition Format_simple :: "Breakdown \<Rightarrow> int \<Rightarrow> char \<Rightarrow> string \<times> string" where
  "Format_simple bd tp c =
     (if c = CHR ''Y'' then (let bp = Format64 [] 0 (year bd) in (bp, bp))
      else if c = CHR ''m'' then (let bp = Format02d [] (month bd) in (bp, bp))
      else if c = CHR ''d'' \<or> c = CHR ''e'' then
        (let bp = Format02d [] (day bd);
             bp' = (if c = CHR ''e'' \<and> peek bp = CHR ''0'' then CHR '' '' # tl bp else bp)
         in (bp', bp'))
      else if c = CHR ''H'' then (let bp = Format02d [] (hour bd) in (bp, bp))
      else if c = CHR ''M'' then (let bp = Format02d [] (minute bd) in (bp, bp))
      else if c = CHR ''S'' then (let bp = Format02d [] (second bd) in (bp, bp))
      else if c = CHR ''z'' then (let bp = FormatOffset [] (offset bd sdiv 60) NUL in (bp, bp))
      else if c = CHR ''Z'' then ([], abbr bd)
      else if c = CHR ''s'' then (let bp = Format64 [] 0 (ToUnixSeconds tp) in (bp, bp))
      else ([], []))"

text \<open>The state of the loop of \<^verbatim>\<open>Format\<close>: \<^verbatim>\<open>result\<close>, \<^verbatim>\<open>pending\<close> and \<^verbatim>\<open>cur\<close>. A step is
  \<open>None\<close> when a conversion has written below the start of the scratch buffer.\<close>

type_synonym fstate = "string \<times> nat \<times> nat"

text \<open>The end of every conversion: \<^verbatim>\<open>result.append(...)\<close> and \<^verbatim>\<open>pending = cur = ...\<close>, where
  \<open>bp\<close> is what the scratch buffer holds and \<open>out\<close> the part of it that is appended.\<close>

definition scratch_emit :: "string \<Rightarrow> string \<Rightarrow> string \<Rightarrow> nat \<Rightarrow> fstate option" where
  "scratch_emit flushed bp out cur =
     (if length bp > sizeof_buf then None else Some (flushed @ out, cur, cur))"

text \<open>"%E*S": the scratch buffer, and the text from \<^verbatim>\<open>bp\<close> to \<^verbatim>\<open>cp\<close>, which has moved down from
  \<^verbatim>\<open>ep\<close> over the trailing zeros.\<close>

definition Format_Estar :: "Breakdown \<Rightarrow> string \<times> string" where
  "Format_Estar bd =
     (let nanoseconds = int64_cast (subsecond bd);
          digits = Format64 [] 9 nanoseconds;
          zeros = length (takeWhile (\<lambda>x. x = CHR ''0'') (rev digits));
          bp1 = (if zeros \<noteq> length digits then CHR ''.'' # digits else digits);
          bp2 = Format02d bp1 (second bd)
      in (bp2, take (length bp2 - zeros) bp2))"

text \<open>"%E#S" for the parsed number \<open>n0\<close> of digits.\<close>

definition Format_Edigits :: "Breakdown \<Rightarrow> int \<Rightarrow> string" where
  "Format_Edigits bd n0 =
     (let n = (if n0 > int kDigits10_64 then int kDigits10_64 else n0);
          nanoseconds = int64_cast (subsecond bd);
          bp1 = (if n0 > 0 then
                   CHR ''.'' # Format64 [] n
                     (if n > 9 then nanoseconds * kExp10 ! nat (n - 9)
                      else nanoseconds sdiv kExp10 ! nat (9 - n))
                 else [])
      in Format02d bp1 (second bd))"

text \<open>The extensions, with \<^verbatim>\<open>cur\<close> on the character after "%E".\<close>

definition Format_E ::
  "host \<Rightarrow> Breakdown \<Rightarrow> tm \<Rightarrow> string \<Rightarrow> fstate \<Rightarrow> fstate option" where
  "Format_E h bd t f st =
     (case st of (result, pending, cur) \<Rightarrow>
      (let c = char_at f cur;
           flushed = (if cur - 2 \<noteq> pending then FormatTM h result (substr f pending (cur - 2)) t
                      else result)
       in if c = CHR ''z'' then
            (let bp = FormatOffset [] (offset bd sdiv 60) (CHR '':'')
             in scratch_emit flushed bp bp (cur + 1))
          else if c = CHR ''*'' \<and> cur + 1 \<noteq> length f \<and> char_at f (cur + 1) = CHR ''S'' then
            scratch_emit flushed (fst (Format_Estar bd)) (snd (Format_Estar bd)) (cur + 2)
          else if c = CHR ''4'' \<and> cur + 1 \<noteq> length f \<and> char_at f (cur + 1) = CHR ''Y'' then
            (let bp = Format64 [] 4 (year bd)
             in scratch_emit flushed bp bp (cur + 2))
          else if isdigit c then
            (case ParseInt kintmin (Some (drop cur f)) 0 0 1024 of
               None \<Rightarrow> Some (result, pending, cur)
             | Some (np, n) \<Rightarrow>
                 if peek np = CHR ''S'' then
                   (let bp = Format_Edigits bd n
                    in scratch_emit flushed bp bp (length f - length np + 1))
                 else Some (result, pending, cur))
          else Some (result, pending, cur)))"

text \<open>The part of the loop body after an unescaped percent sign, with \<^verbatim>\<open>cur\<close> on the character
  that follows it.\<close>

definition Format_spec ::
  "host \<Rightarrow> Breakdown \<Rightarrow> tm \<Rightarrow> int \<Rightarrow> string \<Rightarrow> fstate \<Rightarrow> fstate option" where
  "Format_spec h bd t tp f st =
     (case st of (result, pending, cur) \<Rightarrow>
      (let c = char_at f cur
       in if strchr ''YmdeHMSzZs'' c \<noteq> None then
            (let flushed = (if cur - 1 \<noteq> pending
                            then FormatTM h result (substr f pending (cur - 1)) t else result)
             in scratch_emit flushed (fst (Format_simple bd tp c)) (snd (Format_simple bd tp c))
                  (cur + 1))
          else if c \<noteq> CHR ''E'' then Some (result, pending, cur)
          else if cur + 1 = length f then Some (result, pending, cur + 1)
          else Format_E h bd t f (result, pending, cur + 1)))"

text \<open>The first half of the body of \<^verbatim>\<open>while (cur != end)\<close>, up to the test for an unescaped
  percent sign: the new \<^verbatim>\<open>result\<close>, \<^verbatim>\<open>pending\<close> and \<^verbatim>\<open>cur\<close>, and \<^verbatim>\<open>percent\<close>.\<close>

definition Format_scan :: "string \<Rightarrow> fstate \<Rightarrow> string \<times> nat \<times> nat \<times> nat" where
  "Format_scan f st =
     (case st of (result, pending, cur) \<Rightarrow>
      (let start = cur;
           cur1 = skip_while (\<lambda>c. c \<noteq> CHR ''%'') f cur;
           copy1 = (cur1 \<noteq> start \<and> pending = start);
           result1 = (if copy1 then result @ substr f pending cur1 else result);
           pending1 = (if copy1 then cur1 else pending);
           start1 = (if copy1 then cur1 else start);
           percent = cur1;
           cur2 = skip_while (\<lambda>c. c = CHR ''%'') f cur1;
           copy2 = (cur2 \<noteq> start1 \<and> pending1 = start1);
           escaped = (cur2 - pending1) div 2;
           result2 = (if copy2 then result1 @ substr f pending1 (pending1 + escaped) else result1);
           pending2 = (if copy2 then pending1 + escaped * 2 else pending1);
           trail = (copy2 \<and> pending2 \<noteq> cur2 \<and> cur2 = length f);
           result3 = (if trail then result2 @ [char_at f pending2] else result2);
           pending3 = (if trail then pending2 + 1 else pending2)
       in (result3, pending3, cur2, percent)))"

text \<open>One pass of the body of \<^verbatim>\<open>while (cur != end)\<close>.\<close>

definition Format_step ::
  "host \<Rightarrow> Breakdown \<Rightarrow> tm \<Rightarrow> int \<Rightarrow> string \<Rightarrow> fstate \<Rightarrow> fstate option" where
  "Format_step h bd t tp f st =
     (case Format_scan f st of (result, pending, cur, percent) \<Rightarrow>
        if cur = length f \<or> (cur - percent) mod 2 = 0 then Some (result, pending, cur)
        else Format_spec h bd t tp f (result, pending, cur))"

lemma skip_while_ge: "i \<le> skip_while P f i"
  by (simp add: skip_while_def)

lemma skip_while_le: "i \<le> length f \<Longrightarrow> skip_while P f i \<le> length f"
proof -
  assume "i \<le> length f"
  moreover have "length (takeWhile P (drop i f)) \<le> length (drop i f)"
    by (rule length_takeWhile_le)
  ultimately show ?thesis by (simp add: skip_while_def)
qed

lemma skip_while_progress:
  assumes "i < length f" and "P (f ! i)"
  shows "i < skip_while P f i"
proof -
  from assms(1) have "drop i f = f ! i # drop (Suc i) f"
    using Cons_nth_drop_Suc [of i f] by simp
  with assms(2) show ?thesis by (simp add: skip_while_def)
qed

lemma skip_percent_progress:
  assumes "i < length f"
  shows "i < skip_while (\<lambda>c. c = CHR ''%'') f (skip_while (\<lambda>c. c \<noteq> CHR ''%'') f i)"
proof (cases "f ! i = CHR ''%''")
  case False
  with assms have "i < skip_while (\<lambda>c. c \<noteq> CHR ''%'') f i" by (intro skip_while_progress)
  also have "\<dots> \<le> skip_while (\<lambda>c. c = CHR ''%'') f (skip_while (\<lambda>c. c \<noteq> CHR ''%'') f i)"
    by (rule skip_while_ge)
  finally show ?thesis .
next
  case True
  with assms have "drop i f = CHR ''%'' # drop (Suc i) f"
    using Cons_nth_drop_Suc [of i f] by simp
  then have "skip_while (\<lambda>c. c \<noteq> CHR ''%'') f i = i" by (simp add: skip_while_def)
  with assms True show ?thesis by (simp add: skip_while_progress)
qed

lemma ParseInt_loop_length: "length (fst (ParseInt_loop kmin s v w)) \<le> length s"
  by (induction kmin s v w rule: ParseInt_loop.induct)
     (auto split: option.splits if_splits intro: le_SucI)

lemma ParseInt_digits_length:
  assumes "ParseInt_digits kmin neg bp w mn mx = Some (r, v)"
  shows "length r < length bp"
proof -
  obtain dp val e where loop: "ParseInt_loop kmin bp 0 w = (dp, val, e)"
    by (cases "ParseInt_loop kmin bp 0 w") auto
  with assms have "r = dp" and ne: "length dp \<noteq> length bp"
    by (auto simp: ParseInt_digits_def Let_def split: if_splits)
  moreover from loop ParseInt_loop_length [of kmin bp 0 w] have "length dp \<le> length bp" by simp
  ultimately show ?thesis by simp
qed

lemma ParseInt_length:
  assumes "ParseInt kmin (Some d) w mn mx = Some (r, v)"
  shows "length r < length d"
proof -
  from assms consider w' where "ParseInt_digits kmin True (tl d) w' mn mx = Some (r, v)"
    | "ParseInt_digits kmin False d w mn mx = Some (r, v)"
    by (auto simp: ParseInt_def split: if_splits)
  then show ?thesis
  proof cases
    case 1
    from ParseInt_digits_length [OF 1] show ?thesis by simp
  next
    case 2
    then show ?thesis by (rule ParseInt_digits_length)
  qed
qed

lemma scratch_emit_cur:
  "scratch_emit flushed bp out c = Some (result', pending', cur') \<Longrightarrow> cur' = c"
  by (simp add: scratch_emit_def split: if_splits)

lemma Format_E_cur:
  assumes "Format_E h bd t f (result, pending, cur) = Some (result', pending', cur')"
    and "cur < length f"
  shows "cur \<le> cur' \<and> cur' \<le> length f"
proof -
  have digits: "cur \<le> length f - length np + 1 \<and> length f - length np + 1 \<le> length f"
    if "ParseInt kintmin (Some (drop cur f)) 0 0 1024 = Some (np, n0)" and "peek np = CHR ''S''"
    for np n0
  proof -
    from ParseInt_length [OF that(1)] have "length np < length f - cur" by simp
    moreover from that(2) have "np \<noteq> []" by (auto simp: peek_def NUL_def)
    then have "0 < length np" by simp
    ultimately show ?thesis by arith
  qed
  from assms show ?thesis
    unfolding Format_E_def Let_def
    by (auto split: if_splits option.splits dest!: scratch_emit_cur dest: digits)
qed

lemma Format_spec_cur:
  assumes "Format_spec h bd t tp f (result, pending, cur) = Some (result', pending', cur')"
    and "cur < length f"
  shows "cur \<le> cur' \<and> cur' \<le> length f"
proof (cases "strchr ''YmdeHMSzZs'' (char_at f cur) \<noteq> None")
  case True
  with assms show ?thesis
    by (auto simp: Format_spec_def Let_def dest!: scratch_emit_cur)
next
  case notsimple: False
  show ?thesis
  proof (cases "char_at f cur \<noteq> CHR ''E'' \<or> cur + 1 = length f")
    case True
    with assms notsimple show ?thesis
      by (auto simp: Format_spec_def Let_def split: if_splits)
  next
    case False
    with assms(1) notsimple
    have "Format_E h bd t f (result, pending, cur + 1) = Some (result', pending', cur')"
      by (simp add: Format_spec_def Let_def)
    moreover from False assms(2) have "cur + 1 < length f" by simp
    ultimately have "cur + 1 \<le> cur' \<and> cur' \<le> length f" by (rule Format_E_cur)
    then show ?thesis by simp
  qed
qed

lemma Format_scan_cur:
  "fst (snd (snd (Format_scan f (result, pending, cur)))) =
     skip_while (\<lambda>c. c = CHR ''%'') f (skip_while (\<lambda>c. c \<noteq> CHR ''%'') f cur)"
  by (simp add: Format_scan_def Let_def)

lemma Format_step_cur:
  assumes "Format_step h bd t tp f (result, pending, cur) = Some (result', pending', cur')"
    and "cur < length f"
  shows "cur < cur' \<and> cur' \<le> length f"
proof -
  obtain r p c pc where scan: "Format_scan f (result, pending, cur) = (r, p, c, pc)"
    by (cases "Format_scan f (result, pending, cur)") auto
  from Format_scan_cur [of f result pending cur] scan
  have c: "c = skip_while (\<lambda>c. c = CHR ''%'') f (skip_while (\<lambda>c. c \<noteq> CHR ''%'') f cur)" by simp
  have lt: "cur < c" unfolding c using assms(2) by (rule skip_percent_progress)
  have le: "c \<le> length f" unfolding c using assms(2) by (intro skip_while_le) simp
  show ?thesis
  proof (cases "c = length f \<or> (c - pc) mod 2 = 0")
    case True
    with assms(1) scan have "cur' = c" by (simp add: Format_step_def)
    with lt le show ?thesis by simp
  next
    case False
    with assms(1) scan have "Format_spec h bd t tp f (r, p, c) = Some (result', pending', cur')"
      by (simp add: Format_step_def)
    moreover from False le have "c < length f" by simp
    ultimately have "c \<le> cur' \<and> cur' \<le> length f" by (rule Format_spec_cur)
    with lt show ?thesis by simp
  qed
qed

text \<open>The loop \<^verbatim>\<open>while (cur != end)\<close>. A step moves \<^verbatim>\<open>cur\<close> forward and never past \<^verbatim>\<open>end\<close>
  (\<open>Format_step_cur\<close>), so the test is written \<open>cur < length f\<close>.\<close>

function Format_loop ::
  "host \<Rightarrow> Breakdown \<Rightarrow> tm \<Rightarrow> int \<Rightarrow> string \<Rightarrow> fstate \<Rightarrow> fstate option" where
  "Format_loop h bd t tp f (result, pending, cur) =
     (if cur < length f then
        (case Format_step h bd t tp f (result, pending, cur) of
           None \<Rightarrow> None
         | Some st \<Rightarrow> Format_loop h bd t tp f st)
      else Some (result, pending, cur))"
  by pat_completeness auto
termination
proof (relation "measure (\<lambda>(h, bd, t, tp, f, result, pending, cur). length f - cur)")
  show "wf (measure (\<lambda>(h, bd, t, tp, f, result, pending, cur). length f - cur))" by simp
next
  fix h bd t tp f result pending cur st
  assume lt: "cur < length f"
    and st: "Format_step h bd t tp f (result, pending, cur) = Some st"
  obtain r p c where [simp]: "st = (r, p, c)" by (cases st)
  from Format_step_cur [of h bd t tp f result pending cur r p c] st lt have "cur < c" by simp
  with lt show "((h, bd, t, tp, f, st), (h, bd, t, tp, f, result, pending, cur))
      \<in> measure (\<lambda>(h, bd, t, tp, f, result, pending, cur). length f - cur)"
    by simp
qed

declare Format_loop.simps [simp del]

definition Format :: "host \<Rightarrow> string \<Rightarrow> int \<Rightarrow> TimeZoneIf \<Rightarrow> string option" where
  "Format h format tp tz =
     (let bd = BreakTime tp tz;
          t = ToTM bd
      in case Format_loop h bd t tp format ([], 0, 0) of
           None \<Rightarrow> None
         | Some (result, pending, cur) \<Rightarrow>
             Some (if length format \<noteq> pending
                   then FormatTM h result (substr format pending (length format)) t
                   else result))"

section \<open>cctz_fmt.cc: parsing\<close>

text \<open>\<^verbatim>\<open>ParseOffset(dp, sep, &offset)\<close>: the returned pointer and the new value of
  \<^verbatim>\<open>*offset\<close>.\<close>

definition ParseOffset :: "string option \<Rightarrow> char \<Rightarrow> int \<Rightarrow> string option \<times> int" where
  "ParseOffset dp0 sep offset0 =
     (case dp0 of
        None \<Rightarrow> (None, offset0)
      | Some dp \<Rightarrow>
          (let sign = peek dp;
               dp1 = tl dp
           in if sign = CHR ''+'' \<or> sign = CHR ''-'' then
                (case ParseInt kintmin (Some dp1) 2 0 23 of
                   None \<Rightarrow> (None, offset0)
                 | Some (ap, hours) \<Rightarrow>
                     if int (length dp1) - int (length ap) = 2 then
                       (let ap' = (if sep \<noteq> NUL \<and> peek ap = sep then tl ap else ap);
                            (dp2, minutes) =
                              (case ParseInt kintmin (Some ap') 2 0 59 of
                                 None \<Rightarrow> (ap, 0)
                               | Some (bp, m) \<Rightarrow>
                                   (if int (length ap') - int (length bp) = 2 then bp else ap, m));
                            off = (hours * 60 + minutes) * 60
                        in (Some dp2, if sign = CHR ''-'' then - off else off))
                     else (None, offset0))
              else (None, offset0)))"

text \<open>\<^verbatim>\<open>ParseZone(dp, &zone)\<close>: the returned pointer and the new \<^verbatim>\<open>*zone\<close>.\<close>

definition ParseZone :: "string option \<Rightarrow> string option \<times> string" where
  "ParseZone dp0 =
     (case dp0 of
        None \<Rightarrow> (None, [])
      | Some dp \<Rightarrow>
          (let zone = takeWhile (\<lambda>c. c \<noteq> NUL \<and> \<not> isspace c) dp
           in if zone = [] then (None, zone) else (Some (drop (length zone) dp), zone)))"

text \<open>The digit loop of \<^verbatim>\<open>ParseSubSeconds\<close>: the pointer, \<^verbatim>\<open>v\<close> and \<^verbatim>\<open>exp\<close>.\<close>

fun ParseSubSeconds_loop :: "string \<Rightarrow> int \<Rightarrow> int \<Rightarrow> string \<times> int \<times> int" where
  "ParseSubSeconds_loop [] v e = ([], v, e)"
| "ParseSubSeconds_loop (c # cs) v e =
     (case strchr kDigits c of
        None \<Rightarrow> (c # cs, v, e)
      | Some d \<Rightarrow>
          if d \<ge> 10 then (c # cs, v, e)
          else if e < 9 then ParseSubSeconds_loop cs (v * 10 + int d) (e + 1)
          else ParseSubSeconds_loop cs v e)"

text \<open>\<^verbatim>\<open>ParseSubSeconds(dp, &subseconds)\<close>: the returned pointer and the new
  \<^verbatim>\<open>*subseconds\<close>.\<close>

definition ParseSubSeconds :: "string option \<Rightarrow> int \<Rightarrow> string option \<times> int" where
  "ParseSubSeconds dp0 subseconds0 =
     (case dp0 of
        None \<Rightarrow> (None, subseconds0)
      | Some dp \<Rightarrow>
          if peek dp = CHR ''.'' then
            (let bp = tl dp;
                 (dp', v, e) = ParseSubSeconds_loop bp 0 0
             in if length dp' \<noteq> length bp then (Some dp', v * kExp10 ! nat (9 - e))
                else (None, subseconds0))
          else (Some dp, subseconds0))"

text \<open>\<^verbatim>\<open>ParseTM(dp, fmt, &tm)\<close>: the returned pointer and the \<^verbatim>\<open>tm\<close>. What \<^verbatim>\<open>strptime\<close>
  leaves in the \<^verbatim>\<open>tm\<close> when it fails is not modelled: the \<^verbatim>\<open>tm\<close> is kept.\<close>

definition ParseTM :: "host \<Rightarrow> string option \<Rightarrow> string \<Rightarrow> tm \<Rightarrow> string option \<times> tm" where
  "ParseTM h dp0 f t =
     (case dp0 of
        None \<Rightarrow> (None, t)
      | Some dp \<Rightarrow>
          (case strptime h dp f t of
             None \<Rightarrow> (None, t)
           | Some (rest, t') \<Rightarrow> (Some rest, t')))"

text \<open>The local variables of \<^verbatim>\<open>Parse\<close> that its loop changes.\<close>

record parse_state =
  p_data :: "string option"
  p_fmt :: string
  p_tm :: tm
  p_subseconds :: int
  p_offset :: int
  p_zone :: string
  p_twelve_hour :: bool
  p_afternoon :: bool
  p_saw_precent_s :: bool
  p_percent_s_time :: int

definition tm_zero :: tm where
  "tm_zero = \<lparr> tm_sec = 0, tm_min = 0, tm_hour = 0, tm_mday = 0, tm_mon = 0, tm_year = 0,
     tm_wday = 0, tm_yday = 0, tm_isdst = 0, tm_gmtoff = 0, tm_zone = [] \<rparr>"

text \<open>The end of the loop body, after the \<^verbatim>\<open>switch\<close>: the specifier from \<^verbatim>\<open>percent\<close> to
  \<^verbatim>\<open>fmt\<close> is handed to \<^verbatim>\<open>strptime\<close>, and "%p" is parsed again behind the hour "1".\<close>

definition Parse_host :: "host \<Rightarrow> string \<Rightarrow> parse_state \<Rightarrow> parse_state" where
  "Parse_host h percent s =
     (let orig_data = p_data s;
          spec = take (length percent - length (p_fmt s)) percent;
          (data, t) = ParseTM h orig_data spec (p_tm s);
          s1 = s\<lparr> p_data := data, p_tm := t \<rparr>
      in case (orig_data, data) of
           (Some od, Some d) \<Rightarrow>
             if spec = ''%p'' then
               (let test_input = ''1'' @ take (length od - length d) od;
                    (r, tmp) = ParseTM h (Some (c_str test_input)) ''%I%p'' tm_zero
                in s1\<lparr> p_afternoon := (tm_hour tmp = 13) \<rparr>)
             else s1
         | _ \<Rightarrow> s1)"

text \<open>A field read by \<^verbatim>\<open>ParseInt\<close>: the pointer and the field, which is written only on
  success.\<close>

definition ParseInt_field ::
  "string option \<Rightarrow> int \<Rightarrow> int \<Rightarrow> int \<Rightarrow> int \<Rightarrow> string option \<times> int" where
  "ParseInt_field dp width mn mx old =
     (case ParseInt kintmin dp width mn mx of
        None \<Rightarrow> (None, old)
      | Some (rest, v) \<Rightarrow> (Some rest, v))"

text \<open>\<^verbatim>\<open>case 'E'\<close> of the \<^verbatim>\<open>switch\<close>, with \<^verbatim>\<open>fmt\<close> behind "%E".\<close>

definition Parse_E :: "host \<Rightarrow> string \<Rightarrow> parse_state \<Rightarrow> parse_state" where
  "Parse_E h percent s =
     (let f = p_fmt s; data = p_data s; t = p_tm s
      in if peek f = CHR ''z'' then
           (if (case data of None \<Rightarrow> False | Some d \<Rightarrow> peek d = CHR ''Z'') then
              s\<lparr> p_offset := 0, p_data := map_option tl data, p_fmt := tl f \<rparr>
            else
              (let (d', off) = ParseOffset data (CHR '':'') (p_offset s)
               in s\<lparr> p_data := d', p_offset := off, p_fmt := tl f \<rparr>))
         else if peek f = CHR ''*'' \<and> peek (tl f) = CHR ''S'' then
           (let (d1, sec) = ParseInt_field data 2 0 60 (tm_sec t);
                (d2, sub) = ParseSubSeconds d1 (p_subseconds s)
            in s\<lparr> p_data := d2, p_tm := t\<lparr> tm_sec := sec \<rparr>, p_subseconds := sub,
                  p_fmt := tl (tl f) \<rparr>)
         else if peek f = CHR ''4'' \<and> peek (tl f) = CHR ''Y'' then
           (case ParseInt kintmin data 4 (- 999) 9999 of
              None \<Rightarrow> s\<lparr> p_data := None, p_fmt := tl (tl f) \<rparr>
            | Some (rest, y) \<Rightarrow>
                if int (length (case data of None \<Rightarrow> [] | Some bp \<Rightarrow> bp)) - int (length rest) = 4
                then s\<lparr> p_data := Some rest, p_tm := t\<lparr> tm_year := y - 1900 \<rparr>,
                        p_fmt := tl (tl f) \<rparr>
                else s\<lparr> p_data := None, p_tm := t\<lparr> tm_year := y \<rparr>, p_fmt := tl (tl f) \<rparr>)
         else
           (case (if isdigit (peek f) then ParseInt kintmin (Some f) 0 0 1024 else None) of
              Some (np, n) \<Rightarrow>
                if peek np = CHR ''S'' then
                  (let (d1, sec) = ParseInt_field data 2 0 60 (tm_sec t);
                       (d2, sub) = (if n > 0 then ParseSubSeconds d1 (p_subseconds s)
                                    else (d1, p_subseconds s))
                   in s\<lparr> p_data := d2, p_tm := t\<lparr> tm_sec := sec \<rparr>, p_subseconds := sub,
                         p_fmt := tl np \<rparr>)
                else Parse_host h percent
                       (s\<lparr> p_twelve_hour := (if peek f = CHR ''c'' \<or> peek f = CHR ''X'' then False
                                               else p_twelve_hour s),
                            p_fmt := (if peek f \<noteq> NUL then tl f else f) \<rparr>)
            | None \<Rightarrow>
                Parse_host h percent
                  (s\<lparr> p_twelve_hour := (if peek f = CHR ''c'' \<or> peek f = CHR ''X'' then False
                                          else p_twelve_hour s),
                       p_fmt := (if peek f \<noteq> NUL then tl f else f) \<rparr>)))"

text \<open>The \<^verbatim>\<open>switch (*fmt++)\<close>: \<open>c\<close> is the character behind the percent sign and \<^verbatim>\<open>fmt\<close>
  already points behind \<open>c\<close>.\<close>

definition Parse_spec :: "host \<Rightarrow> string \<Rightarrow> char \<Rightarrow> parse_state \<Rightarrow> parse_state" where
  "Parse_spec h percent c s =
     (let data = p_data s; t = p_tm s
      in if c = CHR ''Y'' then
           (case ParseInt kintmin data 0 (kintmin + 1900) kintmax of
              None \<Rightarrow> s\<lparr> p_data := None \<rparr>
            | Some (rest, y) \<Rightarrow> s\<lparr> p_data := Some rest, p_tm := t\<lparr> tm_year := y - 1900 \<rparr> \<rparr>)
         else if c = CHR ''m'' then
           (case ParseInt kintmin data 2 1 12 of
              None \<Rightarrow> s\<lparr> p_data := None \<rparr>
            | Some (rest, m) \<Rightarrow> s\<lparr> p_data := Some rest, p_tm := t\<lparr> tm_mon := m - 1 \<rparr> \<rparr>)
         else if c = CHR ''d'' then
           (let (d', v) = ParseInt_field data 2 1 31 (tm_mday t)
            in s\<lparr> p_data := d', p_tm := t\<lparr> tm_mday := v \<rparr> \<rparr>)
         else if c = CHR ''H'' then
           (let (d', v) = ParseInt_field data 2 0 23 (tm_hour t)
            in s\<lparr> p_data := d', p_tm := t\<lparr> tm_hour := v \<rparr>, p_twelve_hour := False \<rparr>)
         else if c = CHR ''M'' then
           (let (d', v) = ParseInt_field data 2 0 59 (tm_min t)
            in s\<lparr> p_data := d', p_tm := t\<lparr> tm_min := v \<rparr> \<rparr>)
         else if c = CHR ''S'' then
           (let (d', v) = ParseInt_field data 2 0 60 (tm_sec t)
            in s\<lparr> p_data := d', p_tm := t\<lparr> tm_sec := v \<rparr> \<rparr>)
         else if c = CHR ''I'' \<or> c = CHR ''r'' then
           Parse_host h percent (s\<lparr> p_twelve_hour := True \<rparr>)
         else if c = CHR ''R'' \<or> c = CHR ''T'' \<or> c = CHR ''c'' \<or> c = CHR ''X'' then
           Parse_host h percent (s\<lparr> p_twelve_hour := False \<rparr>)
         else if c = CHR ''z'' then
           (let (d', off) = ParseOffset data NUL (p_offset s)
            in s\<lparr> p_data := d', p_offset := off \<rparr>)
         else if c = CHR ''Z'' then
           (let (d', z) = ParseZone data in s\<lparr> p_data := d', p_zone := z \<rparr>)
         else if c = CHR ''s'' then
           (case ParseInt INT64_MIN data 0 INT64_MIN INT64_MAX of
              None \<Rightarrow> s\<lparr> p_data := None \<rparr>
            | Some (rest, v) \<Rightarrow>
                s\<lparr> p_data := Some rest, p_percent_s_time := v, p_saw_precent_s := True \<rparr>)
         else if c = CHR ''E'' then Parse_E h percent s
         else if c = CHR ''O'' then
           (let f = p_fmt s
            in Parse_host h percent
                 (s\<lparr> p_twelve_hour := (if peek f = CHR ''H'' then False
                                         else if peek f = CHR ''I'' then True
                                         else p_twelve_hour s),
                      p_fmt := (if peek f \<noteq> NUL then tl f else f) \<rparr>))
         else Parse_host h percent s)"

text \<open>One pass of the body of \<^verbatim>\<open>while (data != nullptr && *fmt != '\0')\<close>, for a \<^verbatim>\<open>data\<close>
  that is not null.\<close>

definition Parse_step :: "host \<Rightarrow> string \<Rightarrow> parse_state \<Rightarrow> parse_state" where
  "Parse_step h d s =
     (let f = p_fmt s
      in if isspace (peek f) then
           s\<lparr> p_data := Some (dropWhile isspace d), p_fmt := dropWhile isspace (tl f) \<rparr>
         else if peek f \<noteq> CHR ''%'' then
           (if peek d = peek f then s\<lparr> p_data := Some (tl d), p_fmt := tl f \<rparr>
            else s\<lparr> p_data := None \<rparr>)
         else if tl f = [] then s\<lparr> p_data := None, p_fmt := tl f \<rparr>
         else Parse_spec h f (peek (tl f)) (s\<lparr> p_fmt := tl (tl f) \<rparr>))"

lemma Parse_host_fmt: "p_fmt (Parse_host h percent s) = p_fmt s"
  by (simp add: Parse_host_def Let_def split: prod.splits option.splits)

lemma peek_Cons: "peek (x # xs) = x"
  by (simp add: peek_def)

lemma length_tl_le: "length (tl xs) \<le> length xs"
  by simp

lemma Parse_E_fmt: "length (p_fmt (Parse_E h percent s)) \<le> length (p_fmt s)"
proof -
  have digits: "length (tl np) \<le> length (p_fmt s)"
    if "ParseInt kintmin (Some (p_fmt s)) 0 0 1024 = Some (np, n)" for np n
    using ParseInt_length [OF that] by simp
  show ?thesis
    unfolding Parse_E_def Let_def
    by (auto simp: Parse_host_fmt split: prod.splits option.splits if_splits
        dest: digits intro: le_trans [OF length_tl_le])
qed

lemma Parse_spec_fmt: "length (p_fmt (Parse_spec h percent c s)) \<le> length (p_fmt s)"
proof (cases "c = CHR ''E''")
  case True
  then show ?thesis by (simp add: Parse_spec_def Let_def Parse_E_fmt)
next
  case False
  then show ?thesis
    by (simp add: Parse_spec_def Let_def Parse_host_fmt split: prod.splits option.splits)
qed

lemma Parse_step_fmt:
  assumes "p_fmt s \<noteq> []"
  shows "length (p_fmt (Parse_step h d s)) \<le> length (p_fmt s)
     \<and> (p_data (Parse_step h d s) = None \<or> length (p_fmt (Parse_step h d s)) < length (p_fmt s))"
proof -
  obtain c cs where f: "p_fmt s = c # cs" using assms by (cases "p_fmt s") auto
  note pk = peek_Cons
  consider (space) "isspace c" | (lit) "\<not> isspace c" "c \<noteq> CHR ''%''"
    | (last) "\<not> isspace c" "c = CHR ''%''" "cs = []"
    | (spec) "\<not> isspace c" "c = CHR ''%''" "cs \<noteq> []"
    by blast
  then show ?thesis
  proof cases
    case space
    have "length (dropWhile isspace cs) \<le> length cs" by (rule length_dropWhile_le)
    with space show ?thesis by (simp add: Parse_step_def Let_def f pk)
  next
    case lit
    then show ?thesis by (simp add: Parse_step_def Let_def f pk)
  next
    case last
    then show ?thesis by (simp add: Parse_step_def Let_def f pk)
  next
    case spec
    have "length (p_fmt (Parse_spec h (c # cs) (peek cs) (s\<lparr> p_fmt := tl cs \<rparr>))) \<le> length (tl cs)"
      using Parse_spec_fmt [of h "c # cs" "peek cs" "s\<lparr> p_fmt := tl cs \<rparr>"] by simp
    moreover have "Parse_step h d s = Parse_spec h (c # cs) (peek cs) (s\<lparr> p_fmt := tl cs \<rparr>)"
      using spec by (simp add: Parse_step_def Let_def f pk)
    ultimately show ?thesis using spec by (auto simp: f)
  qed
qed

text \<open>The loop \<^verbatim>\<open>while (data != nullptr && *fmt != '\0')\<close>.\<close>

function Parse_loop :: "host \<Rightarrow> parse_state \<Rightarrow> parse_state" where
  "Parse_loop h s =
     (case p_data s of
        None \<Rightarrow> s
      | Some d \<Rightarrow> if p_fmt s \<noteq> [] then Parse_loop h (Parse_step h d s) else s)"
  by pat_completeness auto
termination
proof (relation "measure (\<lambda>(h, s). length (p_fmt s) + (if p_data s = None then 0 else 1))")
  show "wf (measure (\<lambda>(h, s). length (p_fmt s) + (if p_data s = None then 0 else 1)))" by simp
next
  fix h and s :: parse_state and d
  assume "p_data s = Some d" and "p_fmt s \<noteq> []"
  with Parse_step_fmt [of s h d]
  show "((h, Parse_step h d s), (h, s))
      \<in> measure (\<lambda>(h, s). length (p_fmt s) + (if p_data s = None then 0 else 1))"
    by auto
qed

declare Parse_loop.simps [simp del]

text \<open>\<^verbatim>\<open>Parse\<close> before its loop: the leading whitespace of the input is skipped and the
  fields are set to 1970-01-01 00:00:00, Thursday.\<close>

definition Parse_init :: "string \<Rightarrow> string \<Rightarrow> parse_state" where
  "Parse_init format input =
     \<lparr> p_data = Some (dropWhile isspace (c_str input)),
       p_fmt = c_str format,
       p_tm = tm_zero\<lparr> tm_year := 1970 - 1900, tm_mon := 1 - 1, tm_mday := 1, tm_hour := 0,
                       tm_min := 0, tm_sec := 0, tm_wday := 4, tm_yday := 0, tm_isdst := 0 \<rparr>,
       p_subseconds = 0,
       p_offset = kintmin,
       p_zone = ''UTC'',
       p_twelve_hour = False,
       p_afternoon = False,
       p_saw_precent_s = False,
       p_percent_s_time = 0 \<rparr>"

text \<open>\<^verbatim>\<open>Parse\<close> after its loop. The out parameter \<^verbatim>\<open>*tpp\<close> is threaded through: \<open>tpp\<close> is
  its value before the call, and the result is the returned flag and its value after the
  call.\<close>

definition Parse_finish ::
  "host \<Rightarrow> TimeZoneIf \<Rightarrow> parse_state \<Rightarrow> int \<Rightarrow> bool \<times> int" where
  "Parse_finish h tz s tpp =
     (let t = (if p_twelve_hour s \<and> p_afternoon s \<and> tm_hour (p_tm s) < 12
               then (p_tm s)\<lparr> tm_hour := tm_hour (p_tm s) + 12 \<rparr> else p_tm s)
      in case p_data s of
           None \<Rightarrow> (False, tpp)
         | Some data \<Rightarrow>
             if dropWhile isspace data \<noteq> [] then (False, tpp)
             else if p_saw_precent_s s then (True, p_percent_s_time s * 1000000000)
             else
               (let ptz = (if p_offset s \<noteq> kintmin then UTCTimeZone h else tz);
                    offset0 = (if p_offset s \<noteq> kintmin then p_offset s else 0);
                    leap = (tm_sec t = 60);
                    sec = (if leap then tm_sec t - 1 else tm_sec t);
                    offset1 = (if leap then offset0 - 1 else offset0);
                    subseconds = (if leap then 0 else p_subseconds s);
                    y = (if tm_year t > INT64_MAX - 1900 then INT64_MAX else tm_year t + 1900);
                    ti = MakeTimeInfo y (tm_mon t + 1) (tm_mday t) (tm_hour t) (tm_min t) sec ptz
                in if normalized ti then (False, tpp)
                   else (True, pre ti - offset1 * 1000000000 + subseconds)))"

definition Parse :: "host \<Rightarrow> string \<Rightarrow> string \<Rightarrow> TimeZoneIf \<Rightarrow> int \<Rightarrow> bool \<times> int" where
  "Parse h format input tz tpp = Parse_finish h tz (Parse_loop h (Parse_init format input)) tpp"

section \<open>Auxiliary notions of the proofs\<close>

text \<open>The decimal digits of a non-negative integer, by the recursion of the digit loop of
  \<^verbatim>\<open>Format64\<close>.\<close>

function decimal :: "int \<Rightarrow> string" where
  "decimal v = (if v sdiv 10 \<noteq> 0 then decimal (v sdiv 10) @ [kDigits_at (v smod 10)]
                else [kDigits_at (v smod 10)])"
  by pat_completeness auto
termination
proof (relation "measure (\<lambda>v. nat \<bar>v\<bar>)")
  show "wf (measure (\<lambda>v. nat \<bar>v\<bar>))" by simp
next
  fix v :: int
  assume nz: "v sdiv 10 \<noteq> 0"
  have "\<bar>v sdiv 10\<bar> = \<bar>v\<bar> div 10"
    by (cases "v = 0") (simp_all add: signed_divide_int_def abs_mult)
  moreover from nz have "v \<noteq> 0" by auto
  then have "\<bar>v\<bar> div 10 < \<bar>v\<bar>" by simp
  ultimately show "(v sdiv 10, v) \<in> measure (\<lambda>v. nat \<bar>v\<bar>)" by simp
qed

declare decimal.simps [simp del]

text \<open>A C library in which every call fails or returns zeros, for the closed instances of the
  theorems below; what the instances evaluate does not depend on it.\<close>

definition host0 :: host where
  "host0 = \<lparr> gmtime_r = (\<lambda>t. tm_zero), localtime_r = (\<lambda>t. tm_zero), mktime = (\<lambda>t. (0, t)),
             strftime = (\<lambda>n f t. []), strptime = (\<lambda>d f t. None) \<rparr>"

section \<open>Properties of cctz_libc.cc\<close>

subsection \<open>Truncating and flooring division\<close>

lemma sdiv_nonneg: "0 \<le> a \<Longrightarrow> 0 < b \<Longrightarrow> a sdiv b = a div (b::int)"
  by (simp add: signed_divide_int_def sgn_if)

lemma smod_zero_iff: "(a smod b = 0) = (a mod (b::int) = 0)"
  by (auto simp: signed_modulo_int_def sgn_if mod_eq_0_iff_dvd)

lemma era_floor: "(if y \<ge> 0 then y else y - 399) sdiv 400 = y div (400::int)"
  by (auto simp: signed_divide_int_def sgn_if abs_if) 

lemma IsLeap_mod: "IsLeap y = (y mod 4 = 0 \<and> (y mod 100 \<noteq> 0 \<or> y mod 400 = 0))"
  by (simp add: IsLeap_def smod_zero_iff)

lemma div_step: 
  assumes k: "0 < k"
  shows "(y + 1) div k = y div k + (if (y + 1) mod k = 0 then 1 else (0::int))"
proof -
  have split: "(y + 1) div k = y div k + (y mod k + 1) div k"
  proof -
    have "(y mod k + 1 + k * (y div k)) div k = y div k + (y mod k + 1) div k"
      by (rule div_mult_self2) (use k in simp)
    moreover have "y mod k + 1 + k * (y div k) = y + 1" by simp
    ultimately show ?thesis by simp
  qed
  have range: "0 \<le> y mod k" "y mod k < k" using k by simp_all
  have modeq: "(y + 1) mod k = (y mod k + 1) mod k" by (simp add: mod_simps)
  show ?thesis
  proof (cases "y mod k + 1 = k")
    case True
    then have "(y mod k + 1) div k = 1" "(y + 1) mod k = 0" using k modeq by simp_all
    with split show ?thesis by simp
  next
    case False
    with range have lt: "y mod k + 1 < k" by simp
    then have "(y mod k + 1) div k = 0" "(y mod k + 1) mod k = y mod k + 1"
      using range by (simp_all add: div_pos_pos_trivial mod_pos_pos_trivial)
    with split modeq range show ?thesis by simp
  qed
qed

lemma dvd_chain: "(z::int) mod 400 = 0 \<Longrightarrow> z mod 100 = 0" "(z::int) mod 100 = 0 \<Longrightarrow> z mod 4 = 0"
proof -
  show "z mod 400 = 0 \<Longrightarrow> z mod 100 = 0"
    using dvd_trans [of "100::int" 400 z] by (simp add: mod_eq_0_iff_dvd)
  show "z mod 100 = 0 \<Longrightarrow> z mod 4 = 0"
    using dvd_trans [of "4::int" 100 z] by (simp add: mod_eq_0_iff_dvd)
qed


lemma G_step: "days_before_year (y + 1) = days_before_year y + 365 + (if IsLeap (y + 1) then 1 else 0)"
proof -
  define P4 where "P4 = ((y + 1) mod 4 = 0)"
  define P100 where "P100 = ((y + 1) mod 100 = 0)"
  define P400 where "P400 = ((y + 1) mod 400 = 0)"
  define A where "A = y div 4"
  define B where "B = y div 100"
  define C where "C = y div 400"
  have imp: "P400 \<Longrightarrow> P100" "P100 \<Longrightarrow> P4"
    unfolding P4_def P100_def P400_def by (erule dvd_chain)+
  have a: "(y + 1) div 4 = A + (if P4 then 1 else 0)"
    unfolding A_def P4_def by (rule div_step) simp
  have b: "(y + 1) div 100 = B + (if P100 then 1 else 0)"
    unfolding B_def P100_def by (rule div_step) simp
  have c: "(y + 1) div 400 = C + (if P400 then 1 else 0)"
    unfolding C_def P400_def by (rule div_step) simp
  have leap: "IsLeap (y + 1) = (P4 \<and> (\<not> P100 \<or> P400))"
    unfolding IsLeap_mod P4_def P100_def P400_def by (rule refl)
  have "days_before_year (y + 1) = 365 * (y + 1) + (A + (if P4 then 1 else 0)) - (B + (if P100 then 1 else 0))
      + (C + (if P400 then 1 else 0))"
    unfolding days_before_year_def a b c by (rule refl)
  moreover have "days_before_year y = 365 * y + A - B + C"
    unfolding days_before_year_def A_def B_def C_def by (rule refl)
  ultimately show ?thesis
    unfolding leap using imp by (cases P4; cases P100; cases P400; simp)
qed

lemma div_split_mult:
  assumes "0 < (k::int)"
  shows "(k * a + r) div k = a + r div k"
  using assms by simp

lemma G_era: "(y div 400) * 146097 + ((y - (y div 400) * 400) * 365 + (y - (y div 400) * 400) div 4 - (y - (y div 400) * 400) div 100) = days_before_year y"
proof -
  define q where "q = y div 400"
  define r where "r = y mod 400"
  define r4 where "r4 = r div 4"
  define r100 where "r100 = r div 100"
  have y: "y = 400 * q + r" by (simp add: q_def r_def)
  have yr: "y - q * 400 = r" using y by simp
  have r: "0 \<le> r" "r < 400" by (simp_all add: r_def)
  have "y div 4 = (4 * (100 * q) + r) div 4" by (simp add: y)
  also have "\<dots> = 100 * q + r div 4" by (rule div_split_mult) simp
  finally have d4: "y div 4 = 100 * q + r4" by (simp add: r4_def)
  have "y div 100 = (100 * (4 * q) + r) div 100" by (simp add: y)
  also have "\<dots> = 4 * q + r div 100" by (rule div_split_mult) simp
  finally have d100: "y div 100 = 4 * q + r100" by (simp add: r100_def)
  have d400: "y div 400 = q" by (simp add: q_def)
  have "days_before_year y = 365 * (400 * q + r) + (100 * q + r4) - (4 * q + r100) + q"
    unfolding days_before_year_def d4 d100 d400 by (simp add: y)
  then show ?thesis
    unfolding q_def [symmetric] yr r4_def [symmetric] r100_def [symmetric] by simp
qed

lemma G_mono: "a \<le> b \<Longrightarrow> days_before_year a \<le> days_before_year b"
proof (induction b rule: int_ge_induct)
  case base
  show ?case by simp
next
  case (step i)
  have "days_before_year (i + 1) = days_before_year i + 365 + (if IsLeap (i + 1) then 1 else 0)" by (rule G_step)
  with step show ?case by (simp split: if_splits)
qed

subsection \<open>DayOrdinal\<close>

lemma month_cases:
  "1 \<le> m \<Longrightarrow> m \<le> 12 \<Longrightarrow> m = 1 \<or> m = 2 \<or> m = 3 \<or> m = 4 \<or> m = 5 \<or> m = 6 \<or> m = 7 \<or> m = 8
      \<or> m = 9 \<or> m = 10 \<or> m = 11 \<or> (m::int) = 12"
  by arith

lemma doy_range:
  assumes "canonical_date y m d"
  shows "0 \<le> doy m d" and "m > 2 \<Longrightarrow> doy m d \<le> 305" and "m \<le> 2 \<Longrightarrow> 306 \<le> doy m d"
    and "m \<le> 2 \<Longrightarrow> doy m d \<le> 364 + (if IsLeap y then 1 else 0)"
proof -
  from assms have m: "1 \<le> m" "m \<le> 12" and d: "1 \<le> d" "d \<le> kDaysPerMonth (IsLeap y) ! nat m"
    by (simp_all add: canonical_date_def)
  from month_cases [OF m] d show "0 \<le> doy m d"
    by (elim disjE) (simp_all add: doy_def signed_divide_int_def)
  from month_cases [OF m] d show "m > 2 \<Longrightarrow> doy m d \<le> 305"
    by (elim disjE) (simp_all add: doy_def signed_divide_int_def kDaysPerMonth_def split: if_splits)
  from month_cases [OF m] d show "m \<le> 2 \<Longrightarrow> 306 \<le> doy m d"
    by (elim disjE) (simp_all add: doy_def signed_divide_int_def)
  from month_cases [OF m] d show "m \<le> 2 \<Longrightarrow> doy m d \<le> 364 + (if IsLeap y then 1 else 0)"
    by (elim disjE) (simp_all add: doy_def signed_divide_int_def kDaysPerMonth_def split: if_splits)
qed

lemma doy_month_mono:
  assumes c1: "canonical_date y1 m1 d1" and c2: "canonical_date y2 m2 d2"
    and side: "(m1 \<le> 2) = (m2 \<le> 2)" and lt: "m1 < m2"
  shows "doy m1 d1 < doy m2 d2"
proof -
  from c1 have m1: "1 \<le> m1" "m1 \<le> 12" and d1: "d1 \<le> kDaysPerMonth (IsLeap y1) ! nat m1"
    by (simp_all add: canonical_date_def)
  from c2 have m2: "1 \<le> m2" "m2 \<le> 12" and d2: "1 \<le> d2"
    by (simp_all add: canonical_date_def)
  have e: "doy m1 d1 < doy (m1 + 1) 1"
    using month_cases [OF m1] d1 lt m2 side
    by (elim disjE) (simp_all add: doy_def signed_divide_int_def kDaysPerMonth_def split: if_splits)
  have s: "doy (m1 + 1) 1 \<le> doy m2 1"
    using month_cases [OF m1] month_cases [OF m2] lt side
    by (elim disjE) (simp_all add: doy_def signed_divide_int_def)
  have "doy m2 1 \<le> doy m2 d2" using d2 by (simp add: doy_def)
  with e s show ?thesis by simp
qed

text \<open>The number of days is strictly increasing in the civil order of canonical dates.\<close>

lemma civil_days_strict:
  assumes c1: "canonical_date y1 m1 d1" and c2: "canonical_date y2 m2 d2"
    and lt: "civil_less y1 m1 d1 y2 m2 d2"
  shows "civil_days y1 m1 d1 < civil_days y2 m2 d2"
proof -
  define e1 where "e1 = y1 - (if m1 \<le> 2 then 1 else 0)"
  define e2 where "e2 = y2 - (if m2 \<le> 2 then 1 else 0)"
  have D1: "civil_days y1 m1 d1 = days_before_year e1 + doy m1 d1 - 719468"
    unfolding e1_def by (rule civil_days_def)
  have D2: "civil_days y2 m2 d2 = days_before_year e2 + doy m2 d2 - 719468"
    unfolding e2_def by (rule civil_days_def)
  note r1 = doy_range [OF c1] and r2 = doy_range [OF c2]
  from lt have ord: "e1 < e2 \<or> (e1 = e2 \<and> (m1 \<le> 2) = (m2 \<le> 2) \<and> (m1 < m2 \<or> (m1 = m2 \<and> d1 < d2)))
      \<or> (e1 = e2 \<and> m1 > 2 \<and> m2 \<le> 2)"
    unfolding civil_less_def e1_def e2_def by (auto split: if_splits)
  then consider (year) "e1 < e2"
    | (month) "e1 = e2" "(m1 \<le> 2) = (m2 \<le> 2)" "m1 < m2"
    | (day) "e1 = e2" "m1 = m2" "d1 < d2"
    | (wrap) "e1 = e2" "m1 > 2" "m2 \<le> 2"
    by blast
  then have "days_before_year e1 + doy m1 d1 < days_before_year e2 + doy m2 d2"
  proof cases
    case year
    have top: "doy m1 d1 \<le> 364 + (if IsLeap (e1 + 1) then 1 else 0)"
    proof (cases "m1 \<le> 2")
      case True
      then have "e1 + 1 = y1" by (simp add: e1_def)
      with r1(4) [OF True] show ?thesis by simp
    next
      case False
      then have "doy m1 d1 \<le> 305" using r1(2) by simp
      then show ?thesis by simp
    qed
    have "days_before_year (e1 + 1) \<le> days_before_year e2" using year by (intro G_mono) simp
    moreover have "days_before_year (e1 + 1) = days_before_year e1 + 365 + (if IsLeap (e1 + 1) then 1 else 0)" by (rule G_step)
    ultimately show ?thesis using top r2(1) by (simp split: if_splits)
  next
    case month
    from doy_month_mono [OF c1 c2 month(2) month(3)] month(1) show ?thesis by simp
  next
    case day
    then show ?thesis by (simp add: doy_def)
  next
    case wrap
    from r1(2) [OF wrap(2)] r2(3) [OF wrap(3)] wrap(1) show ?thesis by simp
  qed
  then show ?thesis unfolding D1 D2 by simp
qed

text \<open>Conversions that change nothing, and wrapped sums.\<close>

lemma int64_cast_id: "- 9223372036854775808 \<le> x \<Longrightarrow> x < 9223372036854775808 \<Longrightarrow> int64_cast x = x"
  by (simp add: int64_cast_def mod_pos_pos_trivial)

lemma int_cast_id: "- 2147483648 \<le> x \<Longrightarrow> x < 2147483648 \<Longrightarrow> int_cast x = x"
  by (simp add: int_cast_def mod_pos_pos_trivial)

lemma int64_cast_add: "int64_cast (int64_cast a + b) = int64_cast (a + b)"
proof -
  have "int64_cast (int64_cast a + b)
      = (int64_cast a + b + 9223372036854775808) mod 18446744073709551616 - 9223372036854775808"
    by (rule int64_cast_def)
  also have "int64_cast a + b + 9223372036854775808
      = (a + 9223372036854775808) mod 18446744073709551616 + b"
    by (simp add: int64_cast_def)
  also have "((a + 9223372036854775808) mod 18446744073709551616 + b) mod 18446744073709551616
      = (a + 9223372036854775808 + b) mod 18446744073709551616"
    by (rule mod_add_left_eq)
  also have "a + 9223372036854775808 + b = a + b + 9223372036854775808" by simp
  finally have f: "int64_cast (int64_cast a + b)
      = (a + b + 9223372036854775808) mod 18446744073709551616 - 9223372036854775808" .
  show ?thesis unfolding f int64_cast_def [of "a + b"] by (rule refl)
qed

lemma int64_cast_diff: "int64_cast (int64_cast a - b) = int64_cast (a - b)"
  using int64_cast_add [of a "- b"] by simp

lemma canonical_day_le_31:
  assumes "canonical_date y m d"
  shows "d \<le> 31"
proof -
  from assms have m: "1 \<le> m" "m \<le> 12" and d: "d \<le> kDaysPerMonth (IsLeap y) ! nat m"
    by (simp_all add: canonical_date_def)
  from month_cases [OF m] d show ?thesis
    by (elim disjE) (simp_all add: kDaysPerMonth_def split: if_splits)
qed

lemma doy_cast:
  assumes m: "1 \<le> m" "m \<le> 12" and d: "1 \<le> d" "d \<le> 31"
  shows "int_cast (int_cast (int_cast (int_cast (153 * int_cast (m + (if m > 2 then - 3 else 9)))
            + 2) sdiv 5 + d) - 1) = doy m d"
    and "0 \<le> doy m d" and "doy m d \<le> 400"
proof -
  define k where "k = m + (if m > 2 then - 3 else 9)"
  from m have k: "0 \<le> k" "k \<le> 11" by (simp_all add: k_def)
  define e where "e = (153 * k + 2) sdiv 5"
  have e': "e = (153 * k + 2) div 5" unfolding e_def using k by (intro sdiv_nonneg) simp_all
  have "0 \<le> (153 * k + 2) div 5" using k by (intro pos_imp_zdiv_nonneg_iff [THEN iffD2]) simp_all
  moreover have "(153 * k + 2) div 5 \<le> 1685 div 5" using k by (intro zdiv_mono1) simp_all
  ultimately have e: "0 \<le> e" "e \<le> 337" by (simp_all add: e')
  have a: "int_cast k = k" using k by (intro int_cast_id) simp_all
  have b: "int_cast (153 * k) = 153 * k" using k by (intro int_cast_id) simp_all
  have c: "int_cast (153 * k + 2) = 153 * k + 2" using k by (intro int_cast_id) simp_all
  have f: "int_cast (e + d) = e + d" using e d by (intro int_cast_id) simp_all
  have g: "int_cast (e + d - 1) = e + d - 1" using e d by (intro int_cast_id) simp_all
  have D: "doy m d = e + d - 1" by (simp add: doy_def e_def k_def)
  show "int_cast (int_cast (int_cast (int_cast (153 * int_cast (m + (if m > 2 then - 3 else 9)))
            + 2) sdiv 5 + d) - 1) = doy m d"
    unfolding k_def [symmetric] a b c e_def [symmetric] f g D by (rule refl)
  show "0 \<le> doy m d" "doy m d \<le> 400" using e d by (simp_all add: D)
qed

text \<open>For the years whose March-based year and its predecessor by 399 are representable,
  \<open>DayOrdinal\<close> is the number of days reduced to 64 bits.\<close>

lemma DayOrdinal_wrap:
  assumes y0: "- 9223372036854775808 + 400 \<le> y0" "y0 \<le> 9223372036854775807"
    and m: "1 \<le> m" "m \<le> 12" and d: "1 \<le> d" "d \<le> 31"
  shows "DayOrdinal y0 m d = int64_cast (civil_days y0 m d)"
proof -
  define y where "y = y0 - (if m \<le> 2 then 1 else 0)"
  from y0 have yr: "- 9223372036854775808 + 399 \<le> y" "y \<le> 9223372036854775807"
    by (simp_all add: y_def)
  define q where "q = y div 400"
  define yoe where "yoe = y - q * 400"
  have ym: "yoe = y mod 400" unfolding yoe_def q_def by (simp add: minus_div_mult_eq_mod)
  then have yoe: "0 \<le> yoe" "yoe < 400" by simp_all
  have q400: "q * 400 = y - yoe" by (simp add: yoe_def)
  have c1: "int64_cast y = y" using yr by (intro int64_cast_id) simp_all
  have c2: "int64_cast (y - 399) = y - 399" using yr by (intro int64_cast_id) simp_all
  have era: "(if y \<ge> 0 then y else int64_cast (y - 399)) sdiv 400 = q"
    unfolding c2 q_def by (rule era_floor)
  have c3: "int64_cast (q * 400) = q * 400" using yr yoe unfolding q400 by (intro int64_cast_id) simp_all
  have c4: "int_cast (int64_cast (y - int64_cast (q * 400))) = yoe"
  proof -
    have "int64_cast yoe = yoe" using yoe by (intro int64_cast_id) simp_all
    moreover have "int_cast yoe = yoe" using yoe by (intro int_cast_id) simp_all
    ultimately show ?thesis unfolding c3 yoe_def [symmetric] by simp
  qed
  define a4 where "a4 = yoe sdiv 4"
  define a100 where "a100 = yoe sdiv 100"
  have a4': "a4 = yoe div 4" unfolding a4_def using yoe by (intro sdiv_nonneg) simp_all
  have a100': "a100 = yoe div 100" unfolding a100_def using yoe by (intro sdiv_nonneg) simp_all
  have "0 \<le> yoe div 4" using yoe by (intro pos_imp_zdiv_nonneg_iff [THEN iffD2]) simp_all
  moreover have "yoe div 4 \<le> 399 div 4" using yoe by (intro zdiv_mono1) simp_all
  ultimately have a4: "0 \<le> a4" "a4 \<le> 99" by (simp_all add: a4')
  have "0 \<le> yoe div 100" using yoe by (intro pos_imp_zdiv_nonneg_iff [THEN iffD2]) simp_all
  moreover have "yoe div 100 \<le> 399 div 100" using yoe by (intro zdiv_mono1) simp_all
  ultimately have a100: "0 \<le> a100" "a100 \<le> 3" by (simp_all add: a100')
  note dc = doy_cast [OF m d]
  have yoe365: "0 \<le> yoe * 365" "yoe * 365 \<le> 145635" using yoe by simp_all
  define p where "p = yoe * 365"
  have p: "0 \<le> p" "p \<le> 145635" using yoe365 by (simp_all add: p_def)
  have e1: "int_cast p = p" using p by (intro int_cast_id) simp_all
  have e2: "int_cast (p + a4) = p + a4" using p a4 by (intro int_cast_id) simp_all
  have e3: "int_cast (p + a4 - a100) = p + a4 - a100"
    using p a4 a100 by (intro int_cast_id) simp_all
  have e4: "int_cast (p + a4 - a100 + doy m d) = p + a4 - a100 + doy m d"
    using p a4 a100 dc(2,3) by (intro int_cast_id) simp_all
  have "DayOrdinal y0 m d
      = int64_cast (int64_cast (int64_cast (q * 146097) + (p + a4 - a100 + doy m d)) - 719468)"
    unfolding DayOrdinal_def Let_def y_def [symmetric] c1 era c4 dc(1) a4_def [symmetric]
      a100_def [symmetric] p_def [symmetric] e1 e2 e3 e4
    by (rule refl)
  also have "\<dots> = int64_cast (q * 146097 + (p + a4 - a100 + doy m d) - 719468)"
    unfolding int64_cast_add int64_cast_diff by (rule refl)
  also have "q * 146097 + (p + a4 - a100 + doy m d) - 719468
      = (y div 400 * 146097 + ((y - y div 400 * 400) * 365 + (y - y div 400 * 400) div 4
           - (y - y div 400 * 400) div 100)) + doy m d - 719468"
    unfolding p_def a4' a100' yoe_def q_def by simp
  also have "y div 400 * 146097 + ((y - y div 400 * 400) * 365 + (y - y div 400 * 400) div 4
           - (y - y div 400 * 400) div 100) = days_before_year y"
    by (rule G_era)
  finally show ?thesis unfolding y_def civil_days_def .
qed

text \<open>From the first day of the year \<open>- 25252734927764584\<close> to the last day of the year
  25252734927768523 the number of days fits 64 bits.\<close>

lemma civil_days_bounds:
  assumes c: "canonical_date y m d"
    and lo: "- 25252734927764584 \<le> y" and hi: "y \<le> 25252734927768523"
  shows "- 9223372036854775808 \<le> civil_days y m d"
    and "civil_days y m d < 9223372036854775808"
proof -
  from c have m: "1 \<le> m" "m \<le> 12" and d: "1 \<le> d" by (simp_all add: canonical_date_def)
  note d31 = canonical_day_le_31 [OF c]
  have cl: "canonical_date (- 25252734927764584) 1 1" by code_simp
  have vl: "civil_days (- 25252734927764584) 1 1 = - 9223372036854775600" by code_simp
  have "civil_days (- 25252734927764584) 1 1 \<le> civil_days y m d"
  proof (cases "y = - 25252734927764584 \<and> m = 1 \<and> d = 1")
    case True
    then show ?thesis by simp
  next
    case False
    with lo m d have "civil_less (- 25252734927764584) 1 1 y m d"
      by (auto simp: civil_less_def)
    from civil_days_strict [OF cl c this] show ?thesis by simp
  qed
  with vl show "- 9223372036854775808 \<le> civil_days y m d" by simp
  have cu: "canonical_date 25252734927768523 12 31" by code_simp
  have vu: "civil_days 25252734927768523 12 31 = 9223372036854775598" by code_simp
  have "civil_days y m d \<le> civil_days 25252734927768523 12 31"
  proof (cases "y = 25252734927768523 \<and> m = 12 \<and> d = 31")
    case True
    then show ?thesis by simp
  next
    case False
    with hi m d31 have "civil_less y m d 25252734927768523 12 31"
      by (auto simp: civil_less_def)
    from civil_days_strict [OF c cu this] show ?thesis by simp
  qed
  with vu show "civil_days y m d < 9223372036854775808" by simp
qed

lemma DayOrdinal_civil_days:
  assumes c: "canonical_date y m d"
    and lo: "- 25252734927764584 \<le> y" and hi: "y \<le> 25252734927768523"
  shows "DayOrdinal y m d = civil_days y m d"
proof -
  from c have m: "1 \<le> m" "m \<le> 12" and d: "1 \<le> d" by (simp_all add: canonical_date_def)
  have "DayOrdinal y m d = int64_cast (civil_days y m d)"
    using lo hi by (intro DayOrdinal_wrap m d canonical_day_le_31 [OF c]) simp_all
  also have "\<dots> = civil_days y m d"
    by (intro int64_cast_id civil_days_bounds [OF c lo hi])
  finally show ?thesis .
qed

text \<open>
  Claim C2, as the code has it. \<open>DayOrdinal 1970 1 1 = 0\<close>; the first of March 2000 lies 29 days
  after the first of February 2000; and for any two canonical proleptic-Gregorian dates (month
  in [1:12], day within the month's length of \<^verbatim>\<open>kDaysPerMonth\<close>) with years from
  \<open>- 25252734927764584\<close> to 25252734927768523, of which the first precedes the second in the
  civil order, \<open>DayOrdinal\<close> of the first is strictly less than \<open>DayOrdinal\<close> of the second.
  These are the years all of whose days have a number that the 64-bit \<^verbatim>\<open>time_t\<close> holds.
\<close>

theorem DayOrdinal_monotone:
  "DayOrdinal 1970 1 1 = 0
   \<and> DayOrdinal 2000 3 1 - DayOrdinal 2000 2 1 = 29
   \<and> (\<forall>y1 m1 d1 y2 m2 d2.
        canonical_date y1 m1 d1 \<and> canonical_date y2 m2 d2 \<and> civil_less y1 m1 d1 y2 m2 d2
        \<and> - 25252734927764584 \<le> y1 \<and> y2 \<le> 25252734927768523
        \<longrightarrow> DayOrdinal y1 m1 d1 < DayOrdinal y2 m2 d2)"
proof (intro conjI allI impI)
  show "DayOrdinal 1970 1 1 = 0" by code_simp
next
  show "DayOrdinal 2000 3 1 - DayOrdinal 2000 2 1 = 29" by code_simp
next
  fix y1 m1 d1 y2 m2 d2
  assume a: "canonical_date y1 m1 d1 \<and> canonical_date y2 m2 d2 \<and> civil_less y1 m1 d1 y2 m2 d2
        \<and> - 25252734927764584 \<le> y1 \<and> y2 \<le> 25252734927768523"
  then have c1: "canonical_date y1 m1 d1" and c2: "canonical_date y2 m2 d2"
    and lt: "civil_less y1 m1 d1 y2 m2 d2"
    and lo: "- 25252734927764584 \<le> y1" and hi: "y2 \<le> 25252734927768523"
    by simp_all
  from lt have le: "y1 \<le> y2" by (auto simp: civil_less_def)
  from le lo have lo2: "- 25252734927764584 \<le> y2" by simp
  from le hi have hi1: "y1 \<le> 25252734927768523" by simp
  have "DayOrdinal y1 m1 d1 = civil_days y1 m1 d1" by (rule DayOrdinal_civil_days [OF c1 lo hi1])
  moreover have "DayOrdinal y2 m2 d2 = civil_days y2 m2 d2"
    by (rule DayOrdinal_civil_days [OF c2 lo2 hi])
  ultimately show "DayOrdinal y1 m1 d1 < DayOrdinal y2 m2 d2"
    using civil_days_strict [OF c1 c2 lt] by simp
qed

text \<open>The leap day of 2000 and the day after it.\<close>

theorem DayOrdinal_monotone_witness:
  "canonical_date 2000 2 29 \<and> canonical_date 2000 3 1 \<and> civil_less 2000 2 29 2000 3 1
   \<and> - 25252734927764584 \<le> (2000 :: int) \<and> (2000 :: int) \<le> 25252734927768523
   \<and> DayOrdinal 2000 2 29 < DayOrdinal 2000 3 1"
proof -
  have a: "canonical_date 2000 2 29" by code_simp
  have b: "canonical_date 2000 3 1" by code_simp
  have c: "civil_less 2000 2 29 2000 3 1" by code_simp
  have r: "- 25252734927764584 \<le> (2000 :: int)" "(2000 :: int) \<le> 25252734927768523" by simp_all
  from DayOrdinal_monotone [THEN conjunct2, THEN conjunct2, rule_format, of 2000 2 29 2000 3 1]
    a b c r
  have "DayOrdinal 2000 2 29 < DayOrdinal 2000 3 1" by simp
  with a b c r show ?thesis by simp
qed

text \<open>
  Claim C2 as stated, for any two canonical dates, fails at both ends of that range. The day
  number of 25252734927768524-07-27 is the largest \<^verbatim>\<open>time_t\<close>, and the sum for the next day
  wraps to the smallest; the day number of -25252734927764585-06-07 is the smallest \<^verbatim>\<open>time_t\<close>,
  and the sum for the day before wraps to the largest.
\<close>

theorem DayOrdinal_wraps_counterexample:
  "canonical_date 25252734927768524 7 27 \<and> canonical_date 25252734927768524 7 28
   \<and> civil_less 25252734927768524 7 27 25252734927768524 7 28
   \<and> DayOrdinal 25252734927768524 7 27 = 9223372036854775807
   \<and> DayOrdinal 25252734927768524 7 28 = - 9223372036854775808
   \<and> canonical_date (- 25252734927764585) 6 6 \<and> canonical_date (- 25252734927764585) 6 7
   \<and> civil_less (- 25252734927764585) 6 6 (- 25252734927764585) 6 7
   \<and> DayOrdinal (- 25252734927764585) 6 6 = 9223372036854775807
   \<and> DayOrdinal (- 25252734927764585) 6 7 = - 9223372036854775808"
  by code_simp

subsection \<open>MakeTimeInfo and BreakTime\<close>

lemma normalize_oct32: "normalize_civil 2013 10 32 8 30 0 = ((2013, 11, 1, 8, 30, 0), False)"
  by code_simp

lemma normalize_nov1: "normalize_civil 2013 11 1 8 30 0 = ((2013, 11, 1, 8, 30, 0), False)"
  by code_simp

lemma DayOrdinal_2013_11_1: "DayOrdinal 2013 11 1 = 16010"
  by code_simp

text \<open>
  Claim C1. For the zone that is not "localtime", \<^verbatim>\<open>MakeTimeInfo(2013, 10, 32, 8, 30, 0)\<close>
  returns the instant of 2013-11-01T08:30:00Z, the same as the canonical fields
  \<^verbatim>\<open>(2013, 11, 1, 8, 30, 0)\<close> give, so the day was carried into the month; but the
  \<open>normalized\<close> flag of the result is \<open>False\<close>: only \<^verbatim>\<open>NormalizeField\<close> sets the flag, and the
  three loops that carry the day into the month and the year do not. The claim, and the comment
  on \<^verbatim>\<open>TimeInfo\<close> in \<^verbatim>\<open>cctz.h\<close>, say the flag is \<open>True\<close> here.
\<close>

theorem MakeTimeInfo_day_carry_unflagged:
  "TimeZoneLibC_MakeTimeInfo h (TimeZoneLibC_new ''UTC'') 2013 10 32 8 30 0 =
     \<lparr> kind = UNIQUE, pre = 1383294600000000000, trans = 1383294600000000000,
       post = 1383294600000000000, normalized = False \<rparr>
   \<and> TimeZoneLibC_MakeTimeInfo h (TimeZoneLibC_new ''UTC'') 2013 11 1 8 30 0 =
     \<lparr> kind = UNIQUE, pre = 1383294600000000000, trans = 1383294600000000000,
       post = 1383294600000000000, normalized = False \<rparr>"
  by (simp add: TimeZoneLibC_MakeTimeInfo_def TimeZoneLibC_new_def normalize_oct32 normalize_nov1
      DayOrdinal_2013_11_1 FromUnixSeconds_def)

lemma BreakTime_split_in_range:
  assumes lo: "- 9223372036854775808 * 1000000000 \<le> tp" and hi: "tp < 9223372036854775808 * 1000000000"
  shows "BreakTime_split tp = (tp div 1000000000, tp mod 1000000000)"
proof -
  define B :: int where "B = 1000000000"
  define d where "d = tp div B"
  define m where "m = tp mod B"
  have tp: "tp = B * d + m" by (simp add: d_def m_def)
  have m: "0 \<le> m" "m < B" by (simp_all add: m_def B_def)
  have drange: "- 9223372036854775808 \<le> d" "d < 9223372036854775808"
    using lo hi m unfolding tp B_def by simp_all
  define c :: int where "c = of_bool (B \<noteq> 0 \<and> sgn tp \<noteq> sgn B \<and> \<not> B dvd tp)"
  have q: "tp sdiv B = d + c"
    unfolding d_def c_def by (rule signed_divide_int_eq_divide_int)
  have c01: "c = 0 \<or> c = 1" unfolding c_def of_bool_def by auto
  have c1: "c = 1 \<Longrightarrow> tp < 0 \<and> m \<noteq> 0"
    unfolding c_def m_def by (auto simp: B_def sgn_if mod_eq_0_iff_dvd split: if_splits)
  have c0: "c = 1 \<Longrightarrow> d < 0"
  proof -
    assume "c = 1"
    then have "tp < 0" using c1 by simp
    then show "d < 0" using m unfolding tp B_def by simp
  qed
  have cast: "int64_cast (d + c) = d + c"
    using c01 c0 drange by (intro int64_cast_id) auto
  have sub: "tp - (d + c) * B = m - c * B" unfolding tp by (simp add: algebra_simps)
  show ?thesis
    unfolding BreakTime_split_def ToUnixSeconds_def FromUnixSeconds_def Let_def
      B_def [symmetric] q cast sub d_def [symmetric] m_def [symmetric]
    using c01 c1 m by (auto simp: B_def)
qed

lemma BreakTime_subsecond:
  "subsecond (TimeZoneLibC_BreakTime h z tp) = snd (BreakTime_split tp)"
  by (simp add: TimeZoneLibC_BreakTime_def Let_def split: prod.splits)

text \<open>
  Claim C6, on the instants whose count of whole seconds, rounded down, fits \<^verbatim>\<open>int64_t\<close> (from
  \<open>- 2 ^ 63\<close> seconds up to, not including, \<open>2 ^ 63\<close> seconds). There \<^verbatim>\<open>BreakTime\<close> splits the
  instant by floor division: the seconds \<open>t\<close> are \<open>tp div 1000000000\<close>, the subsecond lies in
  [0, 1 s), \<open>t\<close> seconds plus the subsecond is the instant, and that subsecond is the one stored
  in the Breakdown.
\<close>

theorem BreakTime_floor_split:
  assumes lo: "- 9223372036854775808 * 1000000000 \<le> tp" and hi: "tp < 9223372036854775808 * 1000000000"
  shows "fst (BreakTime_split tp) = tp div 1000000000
       \<and> 0 \<le> snd (BreakTime_split tp) \<and> snd (BreakTime_split tp) < 1000000000
       \<and> fst (BreakTime_split tp) * 1000000000 + snd (BreakTime_split tp) = tp
       \<and> subsecond (TimeZoneLibC_BreakTime h z tp) = snd (BreakTime_split tp)"
  using BreakTime_split_in_range [OF lo hi] by (simp add: BreakTime_subsecond)

text \<open>One nanosecond before the epoch: second \<open>- 1\<close>, subsecond 999999999 ns.\<close>

theorem BreakTime_floor_split_witness:
  "- 9223372036854775808 * 1000000000 \<le> (- 1 :: int) \<and> (- 1 :: int) < 9223372036854775808 * 1000000000
   \<and> fst (BreakTime_split (- 1)) = - 1 \<and> snd (BreakTime_split (- 1)) = 999999999"
proof -
  have r: "- 9223372036854775808 * 1000000000 \<le> (- 1 :: int)" "(- 1 :: int) < 9223372036854775808 * 1000000000"
    by simp_all
  from BreakTime_floor_split [OF r, of undefined undefined]
  have "fst (BreakTime_split (- 1)) = (- 1) div 1000000000"
    and "fst (BreakTime_split (- 1)) * 1000000000 + snd (BreakTime_split (- 1)) = - 1"
    by simp_all
  then show ?thesis by simp
qed

text \<open>
  Claim C6 beyond that range. The 128-bit \<^verbatim>\<open>time_point\<close> holds the instant of \<open>2 ^ 63\<close> seconds;
  \<^verbatim>\<open>ToUnixSeconds\<close> converts its seconds to the \<^verbatim>\<open>int64_t\<close> \<open>- 2 ^ 63\<close> with no test of the
  range, and the subsecond that \<^verbatim>\<open>BreakTime\<close> stores is \<open>2 ^ 64\<close> seconds, outside the range
  \<^verbatim>\<open>[0s:1s)\<close> that \<^verbatim>\<open>cctz.h\<close> documents for the field.
\<close>

theorem BreakTime_out_of_range_counterexample:
  "BreakTime_split (9223372036854775808 * 1000000000)
     = (- 9223372036854775808, 18446744073709551616 * 1000000000)
   \<and> \<not> snd (BreakTime_split (9223372036854775808 * 1000000000)) < 1000000000"
  by (simp add: BreakTime_split_def ToUnixSeconds_def FromUnixSeconds_def int64_cast_def
      signed_divide_int_def)

section \<open>Properties of cctz_fmt.cc: formatting\<close>

subsection \<open>Format64\<close>

lemma Format64_digits_eq:
  "Format64_digits s w v = (decimal v @ s, w - int (length (decimal v)))"
proof (induction s w v rule: Format64_digits.induct)
  case (1 s width v)
  show ?case
  proof (cases "v sdiv 10 \<noteq> 0")
    case True
    have d: "decimal v = decimal (v sdiv 10) @ [kDigits_at (v smod 10)]"
      using True by (subst decimal.simps) simp
    have "Format64_digits s width v
        = Format64_digits (kDigits_at (v smod 10) # s) (width - 1) (v sdiv 10)"
      using True by (subst Format64_digits.simps) simp
    also have "\<dots> = (decimal (v sdiv 10) @ kDigits_at (v smod 10) # s,
        width - 1 - int (length (decimal (v sdiv 10))))"
      by (rule 1 [OF True])
    finally show ?thesis by (simp add: d)
  next
    case False
    have d: "decimal v = [kDigits_at (v smod 10)]" using False by (subst decimal.simps) simp
    show ?thesis using False by (subst Format64_digits.simps) (simp add: d)
  qed
qed

lemma Format64_pad_eq: "Format64_pad s w = replicate (nat w) (CHR ''0'') @ s"
proof (induction s w rule: Format64_pad.induct)
  case (1 s width)
  show ?case
  proof (cases "width - 1 \<ge> 0")
    case True
    then have "nat width = Suc (nat (width - 1))" by simp
    moreover have "Format64_pad s width = Format64_pad (CHR ''0'' # s) (width - 1)"
      using True by (subst Format64_pad.simps) simp
    ultimately show ?thesis using 1 [OF True] by (simp add: replicate_app_Cons_same)
  next
    case False
    then show ?thesis by (subst Format64_pad.simps) simp
  qed
qed

lemma decimal_nonempty: "0 < length (decimal v)"
  by (subst decimal.simps) simp

lemma decimal_upper: "0 \<le> v \<Longrightarrow> v < 10 ^ k \<Longrightarrow> 0 < k \<Longrightarrow> length (decimal v) \<le> k"
proof (induction k arbitrary: v)
  case 0
  then show ?case by simp
next
  case (Suc k)
  show ?case
  proof (cases "v sdiv 10 \<noteq> 0")
    case False
    then show ?thesis by (subst decimal.simps) simp
  next
    case True
    from Suc.prems(1) have sd: "v sdiv 10 = v div 10" by (simp add: sdiv_nonneg)
    from Suc.prems have "v div 10 < 10 ^ k" by simp
    moreover from Suc.prems(1) have "0 \<le> v div 10" by simp
    moreover have "0 < k"
    proof (rule ccontr)
      assume "\<not> 0 < k"
      then have "v < 10" using Suc.prems by simp
      with Suc.prems(1) have "v div 10 = 0" by simp
      with True sd show False by simp
    qed
    ultimately have "length (decimal (v div 10)) \<le> k" by (intro Suc.IH)
    then show ?thesis using True sd by (subst decimal.simps) simp
  qed
qed

lemma decimal_lower: "10 ^ k \<le> v \<Longrightarrow> Suc k \<le> length (decimal v)"
proof (induction k arbitrary: v)
  case 0
  from decimal_nonempty [of v] show ?case by (simp add: Suc_le_eq)
next
  case (Suc k)
  have "(0::int) < 10 ^ Suc k" by simp
  with Suc.prems have pos: "0 \<le> v" by linarith
  then have sd: "v sdiv 10 = v div 10" by (simp add: sdiv_nonneg)
  from Suc.prems have le: "10 ^ k \<le> v div 10" by simp
  then have "Suc k \<le> length (decimal (v div 10))" by (rule Suc.IH)
  moreover have "(0::int) < 10 ^ k" by simp
  with le have "v div 10 \<noteq> 0" by linarith
  ultimately show ?case using sd by (subst decimal.simps) simp
qed

lemma Format64_nonneg:
  "0 \<le> v \<Longrightarrow>
     Format64 ep w v = replicate (nat (w - int (length (decimal v)))) (CHR ''0'') @ decimal v @ ep"
  by (simp add: Format64_def Format64_digits_eq Format64_pad_eq)

lemma Format64_neg:
  "v < 0 \<Longrightarrow> v \<noteq> INT64_MIN \<Longrightarrow>
     Format64 ep w v =
       CHR ''-'' # replicate (nat (w - 1 - int (length (decimal (- v))))) (CHR ''0'')
         @ decimal (- v) @ ep"
  by (simp add: Format64_def Format64_digits_eq Format64_pad_eq)

lemma Format64_plain: "0 \<le> v \<Longrightarrow> Format64 [] 0 v = decimal v"
  by (simp add: Format64_nonneg)

lemma decimal_min: "decimal 922337203685477580 = ''922337203685477580''"
  by code_simp

lemma Format64_min:
  "Format64 ep w INT64_MIN =
     CHR ''-'' # replicate (nat (w - 20)) (CHR ''0'') @ ''9223372036854775808'' @ ep"
  by (simp add: Format64_def INT64_MIN_def Format64_digits_eq Format64_pad_eq
      signed_divide_int_def signed_modulo_int_def decimal_min kDigits_at_def kDigits_def)

lemma Format64_length_int64:
  assumes "INT64_MIN \<le> v" "v \<le> INT64_MAX"
  shows "length (Format64 [] w v) \<le> max 20 (nat w)"
proof -
  consider (pos) "0 \<le> v" | (neg) "v < 0" "v \<noteq> INT64_MIN" | (min) "v = INT64_MIN"
    by linarith
  then show ?thesis
  proof cases
    case pos
    have "v < 10 ^ 19" using assms(2) by (simp add: INT64_MAX_def)
    with pos have "length (decimal v) \<le> 19" by (intro decimal_upper) simp_all
    then show ?thesis using pos by (simp add: Format64_nonneg)
  next
    case neg
    have "- v < 10 ^ 19" using assms(1) by (simp add: INT64_MIN_def)
    moreover have "0 \<le> - v" using neg by simp
    ultimately have "length (decimal (- v)) \<le> 19" by (intro decimal_upper) simp_all
    then show ?thesis using neg by (simp add: Format64_neg)
  next
    case min
    then show ?thesis by (simp add: Format64_min)
  qed
qed

lemma Format64_length_exact:
  assumes "0 \<le> v" "v < 10 ^ n" "0 < n"
  shows "length (Format64 [] (int n) v) = n"
proof -
  from assms have "length (decimal v) \<le> n" by (intro decimal_upper)
  then show ?thesis using assms(1) by (simp add: Format64_nonneg)
qed

lemma Format64_width4_in:
  assumes "- 999 \<le> y" "y \<le> 9999"
  shows "length (Format64 [] 4 y) = 4"
proof (cases "0 \<le> y")
  case True
  have "y < 10 ^ 4" using assms(2) by simp
  with True have "length (decimal y) \<le> 4" by (intro decimal_upper) simp_all
  then show ?thesis using True by (simp add: Format64_nonneg)
next
  case False
  then have neg: "y < 0" "y \<noteq> INT64_MIN" using assms(1) by (simp_all add: INT64_MIN_def)
  have "- y < 10 ^ 3" using assms(1) by simp
  moreover have "0 \<le> - y" using neg by simp
  ultimately have "length (decimal (- y)) \<le> 3" by (intro decimal_upper) simp_all
  then show ?thesis using neg by (simp add: Format64_neg)
qed

lemma Format64_width4_out:
  assumes "y < - 999 \<or> 9999 < y"
  shows "4 < length (Format64 [] 4 y)"
proof -
  consider (pos) "9999 < y" | (neg) "y < - 999" "y \<noteq> INT64_MIN" | (min) "y = INT64_MIN"
    using assms by blast
  then show ?thesis
  proof cases
    case pos
    then have "10 ^ 4 \<le> y" by simp
    then have "Suc 4 \<le> length (decimal y)" by (rule decimal_lower)
    then show ?thesis using pos by (simp add: Format64_nonneg)
  next
    case neg
    then have "10 ^ 3 \<le> - y" by simp
    then have "Suc 3 \<le> length (decimal (- y))" by (rule decimal_lower)
    then show ?thesis using neg by (simp add: Format64_neg)
  next
    case min
    then show ?thesis by (simp add: Format64_min)
  qed
qed

lemma Format_E4Y:
  assumes "length (Format64 [] 4 (year (BreakTime tp tz))) \<le> sizeof_buf"
  shows "Format h ''%E4Y'' tp tz = Some (Format64 [] 4 (year (BreakTime tp tz)))"
proof -
  define bd where "bd = BreakTime tp tz"
  have scan: "Format_scan ''%E4Y'' ([], 0, 0) = ([], 0, 1, 0)"
    by code_simp
  have spec: "Format_spec h bd (ToTM bd) tp ''%E4Y'' ([], 0, Suc 0) = Some (Format64 [] 4 (year bd), 4, 4)"
    using assms unfolding bd_def [symmetric]
    by (simp add: Format_spec_def Format_E_def scratch_emit_def char_at_def strchr_def NUL_def Let_def)
  have step: "Format_step h bd (ToTM bd) tp ''%E4Y'' ([], 0, 0) = Some (Format64 [] 4 (year bd), 4, 4)"
    by (simp add: Format_step_def scan spec)
  have "Format_loop h bd (ToTM bd) tp ''%E4Y'' ([], 0, 0) = Some (Format64 [] 4 (year bd), 4, 4)"
    by (simp add: Format_loop.simps [of _ _ _ _ _ "[]"] step Format_loop.simps [of _ _ _ _ _ _ _ 4])
  then show ?thesis
    by (simp add: Format_def Let_def bd_def [symmetric])
qed

subsection \<open>The scratch buffer\<close>

lemma int64_cast_range: "INT64_MIN \<le> int64_cast x \<and> int64_cast x \<le> INT64_MAX"
proof -
  have "0 \<le> (x + 9223372036854775808) mod 18446744073709551616"
    and "(x + 9223372036854775808) mod 18446744073709551616 < 18446744073709551616"
    by simp_all
  then show ?thesis by (simp add: int64_cast_def INT64_MIN_def INT64_MAX_def)
qed

lemma Format02d_length: "length (Format02d ep v) = length ep + 2"
  by (simp add: Format02d_def)

lemma FormatOffset_length:
  "length (FormatOffset ep m sep) = length ep + (if sep \<noteq> NUL then 6 else 5)"
  by (simp add: FormatOffset_def Let_def Format02d_length)

lemma Format_simple_length:
  assumes "INT64_MIN \<le> year bd" "year bd \<le> INT64_MAX"
  shows "length (fst (Format_simple bd tp c)) \<le> sizeof_buf"
proof -
  have y: "length (Format64 [] 0 (year bd)) \<le> 20"
    using Format64_length_int64 [OF assms, of 0] by simp
  have s: "length (Format64 [] 0 (ToUnixSeconds tp)) \<le> 20"
    using Format64_length_int64 [of "ToUnixSeconds tp" 0] int64_cast_range [of "tp sdiv 1000000000"]
    by (simp add: ToUnixSeconds_def)
  show ?thesis
    using y s
    by (simp add: Format_simple_def Let_def Format02d_length FormatOffset_length sizeof_buf_def
        kDigits10_64_def)
qed

lemma kExp10_nth: "k \<le> 18 \<Longrightarrow> kExp10 ! k = 10 ^ k"
proof -
  assume "k \<le> 18"
  then have "k = 0 \<or> k = 1 \<or> k = 2 \<or> k = 3 \<or> k = 4 \<or> k = 5 \<or> k = 6 \<or> k = 7 \<or> k = 8
      \<or> k = 9 \<or> k = 10 \<or> k = 11 \<or> k = 12 \<or> k = 13 \<or> k = 14 \<or> k = 15 \<or> k = 16
      \<or> k = 17 \<or> k = 18" by arith
  then show ?thesis by (elim disjE) (simp_all add: kExp10_def)
qed

lemma ParseInt_digits_range:
  "ParseInt_digits kmin neg bp w mn mx = Some (r, v) \<Longrightarrow> mn \<le> v \<and> v \<le> mx"
  by (auto simp: ParseInt_digits_def Let_def split: prod.splits if_splits)

lemma ParseInt_range:
  "ParseInt kmin dp w mn mx = Some (r, v) \<Longrightarrow> mn \<le> v \<and> v \<le> mx"
  by (auto simp: ParseInt_def split: option.splits if_splits dest: ParseInt_digits_range)

lemma div_lt_bound:
  assumes "0 < (b::int)" "a < c * b"
  shows "a div b < c"
proof (rule ccontr)
  assume "\<not> a div b < c"
  then have "c * b \<le> a div b * b" using assms(1) by (simp add: mult_right_mono)
  moreover have "a div b * b + a mod b = a" by simp
  moreover have "0 \<le> a mod b" using assms(1) by simp
  ultimately have "c * b \<le> a" by linarith
  with assms(2) show False by simp
qed

lemma fraction_digits_length:
  assumes ns: "0 \<le> ns" "ns < 1000000000" and n: "0 < n" "n \<le> 18"
  shows "length (Format64 [] n (if n > 9 then ns * kExp10 ! nat (n - 9)
                                 else ns sdiv kExp10 ! nat (9 - n))) = nat n"
proof -
  define x where "x = (if n > 9 then ns * kExp10 ! nat (n - 9) else ns sdiv kExp10 ! nat (9 - n))"
  have "0 \<le> x \<and> x < 10 ^ nat n"
  proof (cases "n > 9")
    case True
    then have x: "x = ns * 10 ^ nat (n - 9)" using n by (simp add: x_def kExp10_nth)
    have "nat n = 9 + nat (n - 9)" using True by simp
    then have "(10::int) ^ nat n = 1000000000 * 10 ^ nat (n - 9)" by (simp add: power_add)
    moreover have "ns * 10 ^ nat (n - 9) < 1000000000 * 10 ^ nat (n - 9)"
      using ns(2) by (intro mult_strict_right_mono) simp_all
    ultimately show ?thesis using ns(1) x by simp
  next
    case False
    have le: "nat (9 - n) \<le> 18" using n by simp
    have p: "(0::int) < 10 ^ nat (9 - n)" by simp
    have x: "x = ns div 10 ^ nat (9 - n)"
      using False ns(1) p by (simp add: x_def kExp10_nth [OF le] sdiv_nonneg)
    have "9 = nat (9 - n) + nat n" using False n by simp
    then have "(10::int) ^ 9 = 10 ^ nat (9 - n) * 10 ^ nat n" by (simp add: power_add [symmetric])
    then have "ns < 10 ^ nat (9 - n) * 10 ^ nat n" using ns(2) by simp
    then have "ns div 10 ^ nat (9 - n) < 10 ^ nat n"
      using p by (intro div_lt_bound) (simp_all add: mult.commute)
    moreover have "0 \<le> ns div 10 ^ nat (9 - n)" using ns(1) p by (simp add: pos_imp_zdiv_nonneg_iff)
    ultimately show ?thesis using x by simp
  qed
  then have "length (Format64 [] (int (nat n)) x) = nat n"
    using n by (intro Format64_length_exact) simp_all
  then show ?thesis using n by (simp add: x_def)
qed

lemma scratch_emit_ok: "length bp \<le> sizeof_buf \<Longrightarrow> scratch_emit flushed bp out c \<noteq> None"
  by (simp add: scratch_emit_def)

lemma Format_Estar_length:
  assumes ns: "0 \<le> subsecond bd" "subsecond bd < 1000000000"
  shows "length (fst (Format_Estar bd)) \<le> sizeof_buf"
proof -
  have cast: "int64_cast (subsecond bd) = subsecond bd"
    using ns by (intro int64_cast_id) simp_all
  have nine: "length (Format64 [] 9 (subsecond bd)) = 9"
    using Format64_length_exact [of "subsecond bd" 9] ns by simp
  show ?thesis
    by (simp add: Format_Estar_def Let_def cast Format02d_length nine sizeof_buf_def
        kDigits10_64_def)
qed

lemma Format_Edigits_length:
  assumes ns: "0 \<le> subsecond bd" "subsecond bd < 1000000000"
  shows "length (Format_Edigits bd n0) \<le> sizeof_buf"
proof (cases "n0 > 0")
  case False
  then show ?thesis
    by (simp add: Format_Edigits_def Let_def Format02d_length sizeof_buf_def kDigits10_64_def)
next
  case True
  have cast: "int64_cast (subsecond bd) = subsecond bd"
    using ns by (intro int64_cast_id) simp_all
  define n where "n = (if n0 > 18 then 18 else n0)"
  have n: "0 < n" "n \<le> 18" using True by (simp_all add: n_def)
  have "Format_Edigits bd n0 = Format02d (CHR ''.'' # Format64 [] n
      (if n > 9 then subsecond bd * kExp10 ! nat (n - 9)
       else subsecond bd sdiv kExp10 ! nat (9 - n))) (second bd)"
    using True by (simp add: Format_Edigits_def Let_def cast kDigits10_64_def n_def)
  with fraction_digits_length [OF ns n] n(2) show ?thesis
    by (simp add: Format02d_length sizeof_buf_def kDigits10_64_def)
qed

lemma Format_E_Some:
  assumes y: "INT64_MIN \<le> year bd" "year bd \<le> INT64_MAX"
    and ns: "0 \<le> subsecond bd" "subsecond bd < 1000000000"
  shows "Format_E h bd t f st \<noteq> None"
proof -
  obtain result pending cur where st: "st = (result, pending, cur)" by (cases st)
  have z: "length (FormatOffset [] (offset bd sdiv 60) (CHR '':'')) \<le> sizeof_buf"
    by (simp add: FormatOffset_length sizeof_buf_def kDigits10_64_def NUL_def)
  have four: "length (Format64 [] 4 (year bd)) \<le> sizeof_buf"
    using Format64_length_int64 [OF y, of 4] by (simp add: sizeof_buf_def kDigits10_64_def)
  note ok = scratch_emit_ok [OF z] scratch_emit_ok [OF four]
    scratch_emit_ok [OF Format_Estar_length [OF ns]]
    scratch_emit_ok [OF Format_Edigits_length [OF ns]]
  show ?thesis
    unfolding Format_E_def Let_def st
    by (simp add: ok del: not_None_eq split: option.splits)
qed

lemma Format_spec_Some:
  assumes y: "INT64_MIN \<le> year bd" "year bd \<le> INT64_MAX"
    and ns: "0 \<le> subsecond bd" "subsecond bd < 1000000000"
  shows "Format_spec h bd t tp f st \<noteq> None"
proof -
  obtain result pending cur where st: "st = (result, pending, cur)" by (cases st)
  show ?thesis
    unfolding Format_spec_def Let_def st
    by (simp add: Format_E_Some [OF y ns] scratch_emit_ok [OF Format_simple_length [OF y]]
        del: not_None_eq)
qed

lemma Format_step_Some:
  assumes y: "INT64_MIN \<le> year bd" "year bd \<le> INT64_MAX"
    and ns: "0 \<le> subsecond bd" "subsecond bd < 1000000000"
  shows "Format_step h bd t tp f st \<noteq> None"
  by (simp add: Format_step_def Format_spec_Some [OF y ns] del: not_None_eq split: prod.splits)

lemma Format_loop_Some:
  assumes y: "INT64_MIN \<le> year bd" "year bd \<le> INT64_MAX"
    and ns: "0 \<le> subsecond bd" "subsecond bd < 1000000000"
  shows "Format_loop h bd t tp f st \<noteq> None"
  using assms
proof (induction h bd t tp f st rule: Format_loop.induct)
  case (1 h bd t tp f result pending cur)
  show ?case
  proof (cases "cur < length f")
    case False
    then show ?thesis by (simp add: Format_loop.simps)
  next
    case True
    from Format_step_Some [OF "1.prems", of h t tp f "(result, pending, cur)"]
    obtain st where st: "Format_step h bd t tp f (result, pending, cur) = Some st" by auto
    from "1.IH" [OF True st "1.prems"] have "Format_loop h bd t tp f st \<noteq> None" .
    with True st show ?thesis by (simp add: Format_loop.simps [of _ _ _ _ _ result])
  qed
qed

lemma Format_Some:
  assumes "INT64_MIN \<le> year (BreakTime tp tz)" "year (BreakTime tp tz) \<le> INT64_MAX"
    and "0 \<le> subsecond (BreakTime tp tz)" "subsecond (BreakTime tp tz) < 1000000000"
  shows "\<exists>out. Format h format tp tz = Some out"
proof -
  from Format_loop_Some [OF assms, of h "ToTM (BreakTime tp tz)" tp format "([], 0, 0)"]
  obtain st where
    "Format_loop h (BreakTime tp tz) (ToTM (BreakTime tp tz)) tp format ([], 0, 0) = Some st"
    by blast
  then show ?thesis by (cases st) (simp add: Format_def Let_def)
qed

subsection \<open>The width of "%E4Y" and the scratch buffer\<close>

text \<open>
  Claim C8. \<^verbatim>\<open>Format\<close> of "%E4Y" emits \<^verbatim>\<open>Format64(ep, 4, bd.year)\<close>. For a year that is not
  negative this is the digits of the year, as "%Y" emits them (\<^verbatim>\<open>Format64(ep, 0, year)\<close>), behind
  as many '0' as bring the total to 4 characters; for a negative year it is '-', then the
  digits of the absolute value behind as many '0' as bring the total, sign included, to 4. The
  result has exactly four characters for the years in [-999, 9999] and more than four for every
  other year. Year -1 gives "-001" and year 12345 gives "12345".
\<close>

theorem Format_E4Y_width:
  "(\<forall>y. 0 \<le> y \<longrightarrow>
      Format64 [] 4 y
        = replicate (4 - length (Format64 [] 0 y)) (CHR ''0'') @ Format64 [] 0 y)
   \<and> (\<forall>y. INT64_MIN < y \<and> y < 0 \<longrightarrow>
      Format64 [] 4 y
        = CHR ''-'' # replicate (3 - length (Format64 [] 0 (- y))) (CHR ''0'') @ Format64 [] 0 (- y))
   \<and> (\<forall>y. - 999 \<le> y \<and> y \<le> 9999 \<longrightarrow> length (Format64 [] 4 y) = 4)
   \<and> (\<forall>y. y < - 999 \<or> 9999 < y \<longrightarrow> 4 < length (Format64 [] 4 y))
   \<and> (\<forall>h tp tz. INT64_MIN \<le> year (BreakTime tp tz) \<and> year (BreakTime tp tz) \<le> INT64_MAX \<longrightarrow>
        Format h ''%E4Y'' tp tz = Some (Format64 [] 4 (year (BreakTime tp tz))))
   \<and> Format64 [] 4 (- 1) = ''-001''
   \<and> Format64 [] 4 12345 = ''12345''"
proof (intro conjI allI impI)
  fix y :: int
  assume "0 \<le> y"
  then show "Format64 [] 4 y
      = replicate (4 - length (Format64 [] 0 y)) (CHR ''0'') @ Format64 [] 0 y"
    by (simp add: Format64_nonneg [of y "[]" 4] Format64_plain nat_diff_distrib')
next
  fix y :: int
  assume "INT64_MIN < y \<and> y < 0"
  then have neg: "y < 0" "y \<noteq> INT64_MIN" by simp_all
  then show "Format64 [] 4 y
      = CHR ''-'' # replicate (3 - length (Format64 [] 0 (- y))) (CHR ''0'') @ Format64 [] 0 (- y)"
    by (simp add: Format64_neg [of y "[]" 4] Format64_plain nat_diff_distrib')
next
  fix y :: int
  assume "- 999 \<le> y \<and> y \<le> 9999"
  then show "length (Format64 [] 4 y) = 4" by (intro Format64_width4_in) simp_all
next
  fix y :: int
  assume "y < - 999 \<or> 9999 < y"
  then show "4 < length (Format64 [] 4 y)" by (rule Format64_width4_out)
next
  fix h tp tz
  assume "INT64_MIN \<le> year (BreakTime tp tz) \<and> year (BreakTime tp tz) \<le> INT64_MAX"
  then have "length (Format64 [] 4 (year (BreakTime tp tz))) \<le> max 20 (nat 4)"
    by (intro Format64_length_int64) simp_all
  then have "length (Format64 [] 4 (year (BreakTime tp tz))) \<le> sizeof_buf"
    by (simp add: sizeof_buf_def kDigits10_64_def)
  then show "Format h ''%E4Y'' tp tz = Some (Format64 [] 4 (year (BreakTime tp tz)))"
    by (rule Format_E4Y)
next
  show "Format64 [] 4 (- 1) = ''-001''" by code_simp
next
  show "Format64 [] 4 12345 = ''12345''" by code_simp
qed

text \<open>The years 5, -42 and 12345, and a zone whose Breakdown has the year -1.\<close>

theorem Format_E4Y_width_witness:
  "Format64 [] 4 5 = ''0005'' \<and> Format64 [] 4 (- 42) = ''-042''
   \<and> length (Format64 [] 4 9999) = 4 \<and> 4 < length (Format64 [] 4 (- 1000))
   \<and> Format host0 ''%E4Y'' 0
        \<lparr> if_BreakTime = (\<lambda>tp. \<lparr> year = - 1, month = 1, day = 1, hour = 0, minute = 0, second = 0,
                                  subsecond = 0, weekday = 5, yearday = 1, offset = 0,
                                  is_dst = False, abbr = ''UTC'' \<rparr>),
          if_MakeTimeInfo = if_MakeTimeInfo (UTCTimeZone host0) \<rparr> = Some ''-001''"
proof -
  let ?tz = "\<lparr> if_BreakTime = (\<lambda>tp. \<lparr> year = - 1, month = 1, day = 1, hour = 0, minute = 0,
                 second = 0, subsecond = 0, weekday = 5, yearday = 1, offset = 0,
                 is_dst = False, abbr = ''UTC'' \<rparr>),
               if_MakeTimeInfo = if_MakeTimeInfo (UTCTimeZone host0) \<rparr>"
  note w1 = Format_E4Y_width [THEN conjunct1, rule_format]
  note w2 = Format_E4Y_width [THEN conjunct2, THEN conjunct1, rule_format]
  note w3 = Format_E4Y_width [THEN conjunct2, THEN conjunct2, THEN conjunct1, rule_format]
  note w4 = Format_E4Y_width [THEN conjunct2, THEN conjunct2, THEN conjunct2, THEN conjunct1,
    rule_format]
  note w5 = Format_E4Y_width [THEN conjunct2, THEN conjunct2, THEN conjunct2, THEN conjunct2,
    THEN conjunct1, rule_format]
  note w6 = Format_E4Y_width [THEN conjunct2, THEN conjunct2, THEN conjunct2, THEN conjunct2,
    THEN conjunct2, THEN conjunct1]
  have y: "year (BreakTime 0 ?tz) = - 1" by (simp add: BreakTime_def)
  have f5: "Format64 [] 0 5 = ''5''" by code_simp
  from w1 [of 5] have a: "Format64 [] 4 5 = ''0005''" by (simp add: f5 numeral_eq_Suc)
  have f42: "Format64 [] 0 42 = ''42''" by code_simp
  from w2 [of "- 42"] have b: "Format64 [] 4 (- 42) = ''-042''"
    by (simp add: f42 INT64_MIN_def numeral_eq_Suc)
  from w3 [of 9999] have c: "length (Format64 [] 4 9999) = 4" by simp
  from w4 [of "- 1000"] have d: "4 < length (Format64 [] 4 (- 1000))" by simp
  from w5 [of 0 ?tz host0] have "Format host0 ''%E4Y'' 0 ?tz = Some (Format64 [] 4 (- 1))"
    by (simp add: y INT64_MIN_def INT64_MAX_def)
  with w6 have e: "Format host0 ''%E4Y'' 0 ?tz = Some ''-001''" by simp
  from a b c d e show ?thesis by simp
qed

text \<open>
  Claim C9, for the Breakdowns that keep the documented ranges. For every format, every instant
  and every zone whose Breakdown of the instant has its year in the range of \<^verbatim>\<open>int64_t\<close>, the
  type of the field, and its subsecond in [0, 1 s), the range \<^verbatim>\<open>cctz.h\<close> documents for the
  field, no conversion of \<^verbatim>\<open>Format\<close> writes below the start of the 21-byte scratch buffer:
  \<^verbatim>\<open>Format\<close> returns a string. The widest conversions fit: "%Y" and "%s" of any \<^verbatim>\<open>int64_t\<close>
  take at most 20 bytes, "%E*S" takes at most 12, and "%E#S" clamped to 18 digits takes 21.
\<close>

theorem Format_scratch_in_bounds:
  assumes "INT64_MIN \<le> year (BreakTime tp tz)" "year (BreakTime tp tz) \<le> INT64_MAX"
    and "0 \<le> subsecond (BreakTime tp tz)" "subsecond (BreakTime tp tz) < 1000000000"
  shows "(\<exists>out. Format h format tp tz = Some out)
     \<and> length (Format64 [] 0 (year (BreakTime tp tz))) \<le> 20
     \<and> length (Format64 [] 0 (ToUnixSeconds tp)) \<le> 20
     \<and> length (fst (Format_Estar (BreakTime tp tz))) \<le> 12
     \<and> length (Format_Edigits (BreakTime tp tz) 1024) = 21
     \<and> sizeof_buf = 21"
proof -
  let ?bd = "BreakTime tp tz"
  have cast: "int64_cast (subsecond ?bd) = subsecond ?bd"
    using assms(3,4) by (intro int64_cast_id) simp_all
  have a: "\<exists>out. Format h format tp tz = Some out" using assms by (rule Format_Some)
  have b: "length (Format64 [] 0 (year ?bd)) \<le> 20"
    using Format64_length_int64 [OF assms(1,2), of 0] by simp
  have c: "length (Format64 [] 0 (ToUnixSeconds tp)) \<le> 20"
    using Format64_length_int64 [of "ToUnixSeconds tp" 0] int64_cast_range [of "tp sdiv 1000000000"]
    by (simp add: ToUnixSeconds_def)
  have nine: "length (Format64 [] 9 (subsecond ?bd)) = 9"
    using Format64_length_exact [of "subsecond ?bd" 9] assms(3,4) by simp
  have d: "length (fst (Format_Estar ?bd)) \<le> 12"
    by (simp add: Format_Estar_def Let_def cast Format02d_length nine)
  have "length (Format64 [] 18 (if (18::int) > 9 then subsecond ?bd * kExp10 ! nat (18 - 9)
      else subsecond ?bd sdiv kExp10 ! nat (9 - 18))) = nat 18"
    using assms(3,4) by (intro fraction_digits_length) simp_all
  then have e: "length (Format_Edigits ?bd 1024) = 21"
    by (simp add: Format_Edigits_def Let_def cast kDigits10_64_def Format02d_length)
  from a b c d e show ?thesis by (simp add: sizeof_buf_def kDigits10_64_def)
qed

text \<open>The format "%Y %s %E*S %E18S" at the instant 1.5 s in the UTC zone of
  \<^verbatim>\<open>cctz_libc.cc\<close>.\<close>

theorem Format_scratch_in_bounds_witness:
  "INT64_MIN \<le> year (BreakTime 1500000000 (UTCTimeZone host0))
   \<and> year (BreakTime 1500000000 (UTCTimeZone host0)) \<le> INT64_MAX
   \<and> 0 \<le> subsecond (BreakTime 1500000000 (UTCTimeZone host0))
   \<and> subsecond (BreakTime 1500000000 (UTCTimeZone host0)) < 1000000000
   \<and> (\<exists>out. Format host0 ''%Y %s %E*S %E18S'' 1500000000 (UTCTimeZone host0) = Some out)"
proof -
  have y: "INT64_MIN \<le> year (BreakTime 1500000000 (UTCTimeZone host0))"
    "year (BreakTime 1500000000 (UTCTimeZone host0)) \<le> INT64_MAX"
    by code_simp+
  have s: "0 \<le> subsecond (BreakTime 1500000000 (UTCTimeZone host0))"
    "subsecond (BreakTime 1500000000 (UTCTimeZone host0)) < 1000000000"
    by code_simp+
  from Format_scratch_in_bounds [OF y s, of host0 "''%Y %s %E*S %E18S''"]
  have "\<exists>out. Format host0 ''%Y %s %E*S %E18S'' 1500000000 (UTCTimeZone host0) = Some out"
    by simp
  with y s show ?thesis by simp
qed

text \<open>
  Claim C9 at an instant whose Breakdown leaves those ranges. At the instant of
  \<open>- 2 ^ 63 - 1\<close> seconds, which the 128-bit \<^verbatim>\<open>time_point\<close> holds, \<^verbatim>\<open>BreakTime\<close> of the zone of
  \<^verbatim>\<open>cctz_libc.cc\<close> stores the subsecond \<open>- 2 ^ 64 s + 1 s\<close>; \<^verbatim>\<open>Format\<close> converts its count to the
  \<^verbatim>\<open>int64_t\<close> 1000000000, and "%E18S" writes the 19 digits of \<open>10 ^ 18\<close>, the point and two
  digits of the second: 22 bytes into the 21-byte buffer, which the comment at its declaration
  calls enough for the longest conversion.
\<close>

theorem Format_scratch_overflow_counterexample:
  "subsecond (BreakTime ((- 9223372036854775808 - 1) * 1000000000) (UTCTimeZone host0))
     = - 18446744073709551616 * 1000000000 + 1000000000
   \<and> length (Format_Edigits
        (BreakTime ((- 9223372036854775808 - 1) * 1000000000) (UTCTimeZone host0)) 18) = 22
   \<and> sizeof_buf = 21
   \<and> Format host0 ''%E18S'' ((- 9223372036854775808 - 1) * 1000000000) (UTCTimeZone host0) = None"
  by code_simp

section \<open>Properties of cctz_fmt.cc: parsing\<close>

subsection \<open>ParseInt\<close>

lemma ParseInt_minus:
  "ParseInt kmin (Some (CHR ''-'' # ds)) width mn mx =
     (if width \<le> 0 then ParseInt_digits kmin True ds width mn mx
      else if width - 1 \<noteq> 0 then ParseInt_digits kmin True ds (width - 1) mn mx
      else None)"
  by (simp add: ParseInt_def peek_Cons)

lemma ParseInt_digits_zero:
  "fst (snd (ParseInt_loop kmin ds 0 w)) = 0 \<Longrightarrow> ParseInt_digits kmin True ds w mn mx = None"
  by (cases "ParseInt_loop kmin ds 0 w") (auto simp: ParseInt_digits_def)

lemma ParseInt_digits_nonzero:
  "ParseInt_digits kmin True ds w mn mx = Some (rest, v) \<Longrightarrow> v \<noteq> 0"
  by (auto simp: ParseInt_digits_def Let_def split: prod.splits if_splits)

text \<open>
  Claim C10. \<^verbatim>\<open>ParseInt\<close> returns the null pointer on a minus sign followed by digits whose
  accumulated value is zero: whenever the digit loop behind the minus sign ends with the value
  0, the result is null, so a result that is not null behind a minus sign never has the value 0.
  \<^verbatim>\<open>ParseInt\<close> of "-0" with the arguments of "%Y" is null although 0 lies between the bounds,
  and \<^verbatim>\<open>Parse\<close> of "-0" against "%Y" returns false and leaves the out parameter, while "0" is
  parsed, to the year 0.
\<close>

theorem ParseInt_minus_zero:
  "(\<forall>kmin ds width mn mx.
      fst (snd (ParseInt_loop kmin ds 0 (if width \<le> 0 then width else width - 1))) = 0
      \<longrightarrow> ParseInt kmin (Some (CHR ''-'' # ds)) width mn mx = None)
   \<and> (\<forall>kmin ds width mn mx rest v.
      ParseInt kmin (Some (CHR ''-'' # ds)) width mn mx = Some (rest, v) \<longrightarrow> v \<noteq> 0)
   \<and> ParseInt kintmin (Some ''-0'') 0 (kintmin + 1900) kintmax = None
   \<and> kintmin + 1900 \<le> 0 \<and> 0 \<le> kintmax
   \<and> ParseInt kintmin (Some ''0'') 0 (kintmin + 1900) kintmax = Some ([], 0)
   \<and> (\<forall>h tz tpp. Parse h ''%Y'' ''-0'' tz tpp = (False, tpp))
   \<and> (\<forall>h tpp. Parse h ''%Y'' ''0'' (UTCTimeZone h) tpp
         = (True, pre (MakeTimeInfo 0 1 1 0 0 0 (UTCTimeZone h))))"
proof (intro conjI allI impI)
  fix kmin ds width mn mx
  assume "fst (snd (ParseInt_loop kmin ds 0 (if width \<le> 0 then width else width - 1))) = 0"
  then show "ParseInt kmin (Some (CHR ''-'' # ds)) width mn mx = None"
    by (simp add: ParseInt_minus ParseInt_digits_zero split: if_splits)
next
  fix kmin ds width mn mx rest v
  assume "ParseInt kmin (Some (CHR ''-'' # ds)) width mn mx = Some (rest, v)"
  then show "v \<noteq> 0"
    by (auto simp: ParseInt_minus split: if_splits dest: ParseInt_digits_nonzero)
next
  show "ParseInt kintmin (Some ''-0'') 0 (kintmin + 1900) kintmax = None" by code_simp
next
  show "kintmin + 1900 \<le> 0" by (simp add: kintmin_def)
next
  show "0 \<le> kintmax" by (simp add: kintmax_def)
next
  show "ParseInt kintmin (Some ''0'') 0 (kintmin + 1900) kintmax = Some ([], 0)" by code_simp
next
  fix h tz tpp
  show "Parse h ''%Y'' ''-0'' tz tpp = (False, tpp)" by code_simp
next
  fix h tpp
  show "Parse h ''%Y'' ''0'' (UTCTimeZone h) tpp
      = (True, pre (MakeTimeInfo 0 1 1 0 0 0 (UTCTimeZone h)))"
    by code_simp
qed

text \<open>"-00" with unlimited width, and "-5", which is not null.\<close>

theorem ParseInt_minus_zero_witness:
  "fst (snd (ParseInt_loop kintmin ''00'' 0 (if (0::int) \<le> 0 then 0 else 0 - 1))) = 0
   \<and> ParseInt kintmin (Some ''-00'') 0 (- 10) 10 = None
   \<and> ParseInt kintmin (Some ''-5'') 0 (- 10) 10 = Some ([], - 5)
   \<and> (- 5 :: int) \<noteq> 0"
proof -
  have a: "fst (snd (ParseInt_loop kintmin ''00'' 0 (if (0::int) \<le> 0 then 0 else 0 - 1))) = 0"
    by code_simp
  from ParseInt_minus_zero [THEN conjunct1, rule_format, OF a]
  have b: "ParseInt kintmin (Some ''-00'') 0 (- 10) 10 = None" .
  have c: "ParseInt kintmin (Some ''-5'') 0 (- 10) 10 = Some ([], - 5)" by code_simp
  from ParseInt_minus_zero [THEN conjunct2, THEN conjunct1, rule_format, OF c]
  have d: "(- 5 :: int) \<noteq> 0" .
  from a b c d show ?thesis by simp
qed

subsection \<open>Parse and its out parameter\<close>

text \<open>
  Claim C3. Whenever \<^verbatim>\<open>Parse\<close> returns false, the out parameter \<^verbatim>\<open>*tpp\<close> has the value it had
  before the call; a call that changes it returns true. The five causes of a failure (a
  directive that does not match, a field out of range, an integer that overflows, input that is
  not consumed, and a conversion that normalised) all return false.
\<close>

theorem Parse_false_keeps_tpp:
  "(fst (Parse h format input tz tpp) = False \<longrightarrow> snd (Parse h format input tz tpp) = tpp)
   \<and> (snd (Parse h format input tz tpp) \<noteq> tpp \<longrightarrow> fst (Parse h format input tz tpp) = True)"
  by (simp add: Parse_def Parse_finish_def Let_def split: option.splits)

text \<open>The five causes, with the out parameter at 7 ns before the call; the last zone is the UTC
  zone with the flag \<open>normalized\<close> of every conversion set.\<close>

theorem Parse_false_keeps_tpp_witness:
  "Parse host0 ''%Y-%m'' ''2013/10'' (UTCTimeZone host0) 7 = (False, 7)
   \<and> Parse host0 ''%Y-%m-%d'' ''2013-10-32'' (UTCTimeZone host0) 7 = (False, 7)
   \<and> Parse host0 ''%Y'' ''99999999999'' (UTCTimeZone host0) 7 = (False, 7)
   \<and> Parse host0 ''%Y'' ''2013 x'' (UTCTimeZone host0) 7 = (False, 7)
   \<and> Parse host0 ''%Y'' ''2013''
        \<lparr> if_BreakTime = if_BreakTime (UTCTimeZone host0),
          if_MakeTimeInfo = (\<lambda>y m d hh mi ss.
             (if_MakeTimeInfo (UTCTimeZone host0) y m d hh mi ss)\<lparr> normalized := True \<rparr>) \<rparr> 7
       = (False, 7)
   \<and> Parse host0 ''%Y'' ''2013'' (UTCTimeZone host0) 7 = (True, 1356998400000000000)"
proof -
  let ?tz = "\<lparr> if_BreakTime = if_BreakTime (UTCTimeZone host0),
          if_MakeTimeInfo = (\<lambda>y m d hh mi ss.
             (if_MakeTimeInfo (UTCTimeZone host0) y m d hh mi ss)\<lparr> normalized := True \<rparr>) \<rparr>"
  have f: "fst (Parse host0 ''%Y-%m'' ''2013/10'' (UTCTimeZone host0) 7) = False"
    "fst (Parse host0 ''%Y-%m-%d'' ''2013-10-32'' (UTCTimeZone host0) 7) = False"
    "fst (Parse host0 ''%Y'' ''99999999999'' (UTCTimeZone host0) 7) = False"
    "fst (Parse host0 ''%Y'' ''2013 x'' (UTCTimeZone host0) 7) = False"
    "fst (Parse host0 ''%Y'' ''2013'' ?tz 7) = False"
    by code_simp+
  have t: "Parse host0 ''%Y'' ''2013'' (UTCTimeZone host0) 7 = (True, 1356998400000000000)"
    by code_simp
  note k = Parse_false_keeps_tpp [THEN conjunct1, rule_format]
  from k [OF f(1)] k [OF f(2)] k [OF f(3)] k [OF f(4)] k [OF f(5)] f t
  show ?thesis by (simp add: prod_eq_iff)
qed

subsection \<open>The leap second\<close>

text \<open>
  Claim C4. When the loop of \<^verbatim>\<open>Parse\<close> ends with all input consumed, no "%s" seen and the
  seconds field at 60, the conversion is made with the second 59, the offset subtracted from
  its instant is one less than the parsed offset (or than 0 when none was parsed), and the
  parsed subseconds are not added. So "00:60" against "%M:%S" in UTC is parsed to the instant of
  1970-01-01T00:01:00Z, and so is "00:60.5" against "%M:%E*S", while "00:59.5" keeps its half
  second.
\<close>

theorem Parse_leap_second:
  "(\<forall>h tz s tpp data.
      p_data s = Some data \<and> dropWhile isspace data = [] \<and> \<not> p_saw_precent_s s
      \<and> tm_sec (p_tm s) = 60 \<longrightarrow>
      Parse_finish h tz s tpp =
        (let hh = (if p_twelve_hour s \<and> p_afternoon s \<and> tm_hour (p_tm s) < 12
                   then tm_hour (p_tm s) + 12 else tm_hour (p_tm s));
             ptz = (if p_offset s \<noteq> kintmin then UTCTimeZone h else tz);
             offset0 = (if p_offset s \<noteq> kintmin then p_offset s else 0);
             y = (if tm_year (p_tm s) > INT64_MAX - 1900 then INT64_MAX
                  else tm_year (p_tm s) + 1900);
             ti = MakeTimeInfo y (tm_mon (p_tm s) + 1) (tm_mday (p_tm s)) hh (tm_min (p_tm s)) 59
                    ptz
         in if normalized ti then (False, tpp)
            else (True, pre ti - (offset0 - 1) * 1000000000)))
   \<and> (\<forall>h tpp. Parse h ''%M:%S'' ''00:60'' (UTCTimeZone h) tpp = (True, 60000000000))
   \<and> (\<forall>h tpp. Parse h ''%M:%E*S'' ''00:60.5'' (UTCTimeZone h) tpp = (True, 60000000000))
   \<and> (\<forall>h tpp. Parse h ''%M:%E*S'' ''00:59.5'' (UTCTimeZone h) tpp = (True, 59500000000))
   \<and> (\<forall>h. pre (MakeTimeInfo 1970 1 1 0 1 0 (UTCTimeZone h)) = 60000000000)"
proof (intro conjI allI impI)
  fix h tz and s :: parse_state and tpp data
  assume a: "p_data s = Some data \<and> dropWhile isspace data = [] \<and> \<not> p_saw_precent_s s
      \<and> tm_sec (p_tm s) = 60"
  then show "Parse_finish h tz s tpp =
        (let hh = (if p_twelve_hour s \<and> p_afternoon s \<and> tm_hour (p_tm s) < 12
                   then tm_hour (p_tm s) + 12 else tm_hour (p_tm s));
             ptz = (if p_offset s \<noteq> kintmin then UTCTimeZone h else tz);
             offset0 = (if p_offset s \<noteq> kintmin then p_offset s else 0);
             y = (if tm_year (p_tm s) > INT64_MAX - 1900 then INT64_MAX
                  else tm_year (p_tm s) + 1900);
             ti = MakeTimeInfo y (tm_mon (p_tm s) + 1) (tm_mday (p_tm s)) hh (tm_min (p_tm s)) 59
                    ptz
         in if normalized ti then (False, tpp)
            else (True, pre ti - (offset0 - 1) * 1000000000))"
    by (simp add: Parse_finish_def Let_def)
next
  fix h tpp
  show "Parse h ''%M:%S'' ''00:60'' (UTCTimeZone h) tpp = (True, 60000000000)" by code_simp
next
  fix h tpp
  show "Parse h ''%M:%E*S'' ''00:60.5'' (UTCTimeZone h) tpp = (True, 60000000000)" by code_simp
next
  fix h tpp
  show "Parse h ''%M:%E*S'' ''00:59.5'' (UTCTimeZone h) tpp = (True, 59500000000)" by code_simp
next
  fix h
  show "pre (MakeTimeInfo 1970 1 1 0 1 0 (UTCTimeZone h)) = 60000000000" by code_simp
qed

text \<open>The state in which the loop leaves "12:34:60.25 +0100" against "%H:%M:%E*S %z": the
  instant is that of 11:35:00 UTC, 41700 s after the epoch.\<close>

theorem Parse_leap_second_witness:
  "p_data (Parse_loop host0 (Parse_init ''%H:%M:%E*S %z'' ''12:34:60.25 +0100'')) = Some []
   \<and> dropWhile isspace [] = ([] :: string)
   \<and> \<not> p_saw_precent_s (Parse_loop host0 (Parse_init ''%H:%M:%E*S %z'' ''12:34:60.25 +0100''))
   \<and> tm_sec (p_tm (Parse_loop host0 (Parse_init ''%H:%M:%E*S %z'' ''12:34:60.25 +0100''))) = 60
   \<and> p_subseconds (Parse_loop host0 (Parse_init ''%H:%M:%E*S %z'' ''12:34:60.25 +0100''))
        = 250000000
   \<and> Parse host0 ''%H:%M:%E*S %z'' ''12:34:60.25 +0100'' (UTCTimeZone host0) 7
        = (True, 41700000000000)"
proof -
  let ?s = "Parse_loop host0 (Parse_init ''%H:%M:%E*S %z'' ''12:34:60.25 +0100'')"
  have a: "p_data ?s = Some []" by code_simp
  have b: "\<not> p_saw_precent_s ?s" by code_simp
  have c: "tm_sec (p_tm ?s) = 60" by code_simp
  have d: "p_subseconds ?s = 250000000" by code_simp
  have e: "p_offset ?s = 3600" "tm_hour (p_tm ?s) = 12" "tm_min (p_tm ?s) = 34"
    "tm_year (p_tm ?s) = 70" "tm_mon (p_tm ?s) = 0" "tm_mday (p_tm ?s) = 1"
    "p_twelve_hour ?s = False"
    by code_simp+
  have ti: "MakeTimeInfo 1970 1 1 12 34 59 (UTCTimeZone host0)
      = \<lparr> kind = UNIQUE, pre = 45299000000000, trans = 45299000000000,
          post = 45299000000000, normalized = False \<rparr>"
    by code_simp
  from Parse_leap_second [THEN conjunct1, rule_format, of ?s "[]" host0 "UTCTimeZone host0" 7]
    a b c
  have "Parse_finish host0 (UTCTimeZone host0) ?s 7 = (True, 41700000000000)"
    by (simp add: e kintmin_def INT64_MAX_def ti Let_def)
  then have "Parse host0 ''%H:%M:%E*S %z'' ''12:34:60.25 +0100'' (UTCTimeZone host0) 7
      = (True, 41700000000000)"
    by (simp add: Parse_def)
  with a b c d show ?thesis by simp
qed

subsection \<open>The directive "%s"\<close>

text \<open>
  Claim C5. When the loop of \<^verbatim>\<open>Parse\<close> ends with a "%s" parsed (\<^verbatim>\<open>saw_precent_s\<close>) and all
  input consumed, \<^verbatim>\<open>Parse\<close> returns true and the instant is \<^verbatim>\<open>percent_s_time\<close> seconds after
  the epoch. With the flag set, the result of \<^verbatim>\<open>Parse\<close> is the same in every zone, and it is the
  same for any two states that agree on the input pointer and on \<^verbatim>\<open>percent_s_time\<close>, whatever
  their other fields, offsets and subseconds are. "1000000000" against "%s" gives the instant
  of 2001-09-09T01:46:40Z.
\<close>

theorem Parse_percent_s:
  "(\<forall>h format input tz tpp data.
      p_saw_precent_s (Parse_loop h (Parse_init format input))
      \<and> p_data (Parse_loop h (Parse_init format input)) = Some data
      \<and> dropWhile isspace data = [] \<longrightarrow>
      Parse h format input tz tpp
        = (True, p_percent_s_time (Parse_loop h (Parse_init format input)) * 1000000000))
   \<and> (\<forall>h format input tz tz' tpp.
      p_saw_precent_s (Parse_loop h (Parse_init format input)) \<longrightarrow>
      Parse h format input tz tpp = Parse h format input tz' tpp)
   \<and> (\<forall>h h' tz tz' s s' tpp.
      p_saw_precent_s s \<and> p_saw_precent_s s' \<and> p_data s = p_data s'
      \<and> p_percent_s_time s = p_percent_s_time s' \<longrightarrow>
      Parse_finish h tz s tpp = Parse_finish h' tz' s' tpp)
   \<and> (\<forall>h tz tpp. Parse h ''%s'' ''1000000000'' tz tpp = (True, 1000000000 * 1000000000))
   \<and> (\<forall>h. pre (MakeTimeInfo 2001 9 9 1 46 40 (UTCTimeZone h)) = 1000000000 * 1000000000)"
proof (intro conjI allI impI)
  fix h format input tz tpp data
  assume "p_saw_precent_s (Parse_loop h (Parse_init format input))
      \<and> p_data (Parse_loop h (Parse_init format input)) = Some data
      \<and> dropWhile isspace data = []"
  then show "Parse h format input tz tpp
      = (True, p_percent_s_time (Parse_loop h (Parse_init format input)) * 1000000000)"
    by (simp add: Parse_def Parse_finish_def Let_def)
next
  fix h format input tz tz' tpp
  assume "p_saw_precent_s (Parse_loop h (Parse_init format input))"
  then show "Parse h format input tz tpp = Parse h format input tz' tpp"
    by (simp add: Parse_def Parse_finish_def Let_def split: option.splits)
next
  fix h h' tz tz' and s s' :: parse_state and tpp
  assume "p_saw_precent_s s \<and> p_saw_precent_s s' \<and> p_data s = p_data s'
      \<and> p_percent_s_time s = p_percent_s_time s'"
  then show "Parse_finish h tz s tpp = Parse_finish h' tz' s' tpp"
    by (simp add: Parse_finish_def Let_def split: option.splits)
next
  fix h tz tpp
  show "Parse h ''%s'' ''1000000000'' tz tpp = (True, 1000000000 * 1000000000)" by code_simp
next
  fix h
  show "pre (MakeTimeInfo 2001 9 9 1 46 40 (UTCTimeZone h)) = 1000000000 * 1000000000"
    by code_simp
qed

text \<open>"%Y-%m-%d %H:%M:%E*S %z %s" against a date of 1999 with an offset, a fraction and the
  seconds 86400: the instant is 86400 s after the epoch in the UTC zone and in a zone whose
  conversions all flag a normalisation.\<close>

theorem Parse_percent_s_witness:
  "p_saw_precent_s
     (Parse_loop host0 (Parse_init ''%Y-%m-%d %H:%M:%E*S %z %s''
        ''1999-12-31 23:59:58.5 -0800 86400''))
   \<and> p_data
     (Parse_loop host0 (Parse_init ''%Y-%m-%d %H:%M:%E*S %z %s''
        ''1999-12-31 23:59:58.5 -0800 86400'')) = Some []
   \<and> Parse host0 ''%Y-%m-%d %H:%M:%E*S %z %s'' ''1999-12-31 23:59:58.5 -0800 86400''
        (UTCTimeZone host0) 7 = (True, 86400000000000)
   \<and> Parse host0 ''%Y-%m-%d %H:%M:%E*S %z %s'' ''1999-12-31 23:59:58.5 -0800 86400''
        \<lparr> if_BreakTime = if_BreakTime (UTCTimeZone host0),
          if_MakeTimeInfo = (\<lambda>y m d hh mi ss.
             (if_MakeTimeInfo (UTCTimeZone host0) y m d hh mi ss)\<lparr> normalized := True \<rparr>) \<rparr> 7
       = (True, 86400000000000)"
proof -
  let ?s = "Parse_loop host0 (Parse_init ''%Y-%m-%d %H:%M:%E*S %z %s''
        ''1999-12-31 23:59:58.5 -0800 86400'')"
  have a: "p_saw_precent_s ?s" by code_simp
  have b: "p_data ?s = Some []" by code_simp
  have c: "p_percent_s_time ?s = 86400" by code_simp
  note k = Parse_percent_s [THEN conjunct1, rule_format]
  from a b have h: "p_saw_precent_s ?s \<and> p_data ?s = Some [] \<and> dropWhile isspace [] = []"
    by simp
  from k [OF h] c a b show ?thesis by simp
qed

subsection \<open>The directive "%z"\<close>

text \<open>Two digits written by \<^verbatim>\<open>Format02d\<close> are read back by \<^verbatim>\<open>ParseInt\<close> with the width 2, and
  \<^verbatim>\<open>ParseInt\<close> with a lower bound that is not negative reads nothing where no digit stands.\<close>

lemma kDigits_at_digit:
  assumes "0 \<le> i" "i < 10"
  shows "strchr kDigits (kDigits_at i) = Some (nat i)" and "kDigits_at i \<noteq> CHR ''-''"
    and "isdigit (kDigits_at i)"
proof -
  from assms have "i = 0 \<or> i = 1 \<or> i = 2 \<or> i = 3 \<or> i = 4 \<or> i = 5 \<or> i = 6 \<or> i = 7
    \<or> i = 8 \<or> i = 9" by arith
  then show "strchr kDigits (kDigits_at i) = Some (nat i)" and "kDigits_at i \<noteq> CHR ''-''"
    and "isdigit (kDigits_at i)"
    by (elim disjE; simp add: strchr_def kDigits_def kDigits_at_def isdigit_def)+
qed

lemma smod_nonneg: "0 \<le> a \<Longrightarrow> a smod b = a mod \<bar>b\<bar>" for a b :: int
  by (cases "a = 0") (simp_all add: signed_modulo_int_def)

lemma kintmin_sdiv_10: "kintmin sdiv 10 = - 214748364"
  by (simp add: kintmin_def signed_divide_int_def)

lemma ParseInt_loop_2digits:
  assumes "0 \<le> a" "a < 10" "0 \<le> b" "b < 10"
  shows "ParseInt_loop kintmin (kDigits_at a # kDigits_at b # rest) 0 2 = (rest, - (a * 10 + b), False)"
proof -
  from assms have n: "nat a < 10" "nat b < 10" by simp_all
  have k: "\<not> - (a * 10) < kintmin + b" "\<not> 0 < kintmin + a" "\<not> - a < - 214748364"
    using assms by (simp_all add: kintmin_def)
  from assms n k show ?thesis
    by (simp add: kDigits_at_digit kintmin_sdiv_10)
qed

lemma Format02d_digits:
  assumes "0 \<le> v" "v \<le> 99"
  shows "Format02d rest v = kDigits_at (v div 10) # kDigits_at (v mod 10) # rest"
proof -
  from assms have "v sdiv 10 = v div 10" by (simp add: sdiv_nonneg)
  moreover from assms have "v smod 10 = v mod 10" by (simp add: smod_nonneg)
  moreover from assms have "0 \<le> v div 10" "v div 10 < 10" by simp_all
  then have "(v div 10) smod 10 = v div 10" by (simp add: smod_nonneg)
  ultimately show ?thesis by (simp add: Format02d_def)
qed

lemma ParseInt_Format02d:
  assumes "0 \<le> v" "v \<le> 99"
  shows "ParseInt kintmin (Some (Format02d rest v)) 2 mn mx
     = (if mn \<le> v \<and> v \<le> mx then Some (rest, v) else None)"
proof -
  from assms have r: "0 \<le> v div 10" "v div 10 < 10" "0 \<le> v mod 10" "v mod 10 < 10" by simp_all
  have v: "v div 10 * 10 + v mod 10 = v" by simp
  show ?thesis
    using assms
    by (simp add: Format02d_digits ParseInt_def peek_Cons kDigits_at_digit [OF r(1,2)]
        ParseInt_digits_def ParseInt_loop_2digits [OF r] v del: ParseInt_loop.simps)
      (simp add: kintmin_def)
qed

lemma ParseInt_loop_nonpos:
  "val \<le> 0 \<Longrightarrow> fst (snd (ParseInt_loop kmin s val w)) \<le> 0"
proof (induction s arbitrary: val w)
  case Nil
  then show ?case by simp
next
  case (Cons c cs)
  have "val * 10 - int d \<le> 0" for d using Cons.prems by simp
  with Cons show ?case by (auto split: option.splits)
qed

lemma ParseInt_loop_nondigit:
  "\<not> isdigit (peek s) \<Longrightarrow> ParseInt_loop kmin s val w = (s, val, False)"
  by (cases s) (auto simp: isdigit_def peek_Cons strchr_def kDigits_def split: option.splits if_splits)

lemma ParseInt_nondigit:
  assumes "\<not> isdigit (peek s)" "0 \<le> mn"
  shows "ParseInt kintmin (Some s) w mn mx = None"
proof (cases "peek s = CHR ''-''")
  case True
  have "ParseInt_digits kintmin True (tl s) w' mn mx = None" for w'
  proof (cases "ParseInt_loop kintmin (tl s) 0 w'")
    case (fields dp val erange)
    from ParseInt_loop_nonpos [of 0 kintmin "tl s" w'] fields have "val \<le> 0" by simp
    with fields assms(2) show ?thesis by (auto simp: ParseInt_digits_def)
  qed
  with True show ?thesis by (simp add: ParseInt_def)
next
  case False
  with assms(1) show ?thesis
    by (simp add: ParseInt_def ParseInt_digits_def ParseInt_loop_nondigit)
qed

lemma ParseInt_one_digit:
  assumes "0 \<le> d" "d < 10" "\<not> isdigit (peek s)"
  shows "ParseInt kintmin (Some (kDigits_at d # s)) 2 mn mx
     = (if mn \<le> d \<and> d \<le> mx then Some (s, d) else None)"
proof -
  from assms have n: "nat d < 10" by simp
  have k: "\<not> 0 < kintmin + d" "- d \<noteq> kintmin"
    using assms by (simp_all add: kintmin_def)
  from assms n k show ?thesis
    by (simp add: ParseInt_def peek_Cons kDigits_at_digit ParseInt_digits_def kintmin_sdiv_10
        ParseInt_loop_nondigit)
qed

text \<open>
  Claim C7, as the code has it. \<^verbatim>\<open>ParseOffset\<close> with no separator, as "%z" calls it, needs a
  sign and exactly two hour digits with a value from 0 to 23. Two minute digits with a value
  from 0 to 59 right after the hours are consumed and the offset is the sign applied to
  \<open>(hh * 60 + mm) * 60\<close>. The minutes are optional: when two digits above 59 follow the hours,
  or no digit does, the directive still succeeds, consumes the sign and the hours only, and the
  offset is that of the hours. The directive fails (null pointer, offset unchanged) when the
  first character is no sign, when the two hour digits are above 23, and when fewer than two
  digits follow the sign.
\<close>

theorem ParseOffset_z:
  "(\<forall>sign hh mm rest off0.
      (sign = CHR ''+'' \<or> sign = CHR ''-'') \<and> 0 \<le> hh \<and> hh \<le> 23 \<and> 0 \<le> mm \<and> mm \<le> 59 \<longrightarrow>
      ParseOffset (Some (sign # Format02d (Format02d rest mm) hh)) NUL off0
        = (Some rest, if sign = CHR ''-'' then - ((hh * 60 + mm) * 60) else (hh * 60 + mm) * 60))
   \<and> (\<forall>sign hh mm rest off0.
      (sign = CHR ''+'' \<or> sign = CHR ''-'') \<and> 0 \<le> hh \<and> hh \<le> 23 \<and> 60 \<le> mm \<and> mm \<le> 99 \<longrightarrow>
      ParseOffset (Some (sign # Format02d (Format02d rest mm) hh)) NUL off0
        = (Some (Format02d rest mm), if sign = CHR ''-'' then - (hh * 60 * 60) else hh * 60 * 60))
   \<and> (\<forall>sign hh rest off0.
      (sign = CHR ''+'' \<or> sign = CHR ''-'') \<and> 0 \<le> hh \<and> hh \<le> 23 \<and> \<not> isdigit (peek rest) \<longrightarrow>
      ParseOffset (Some (sign # Format02d rest hh)) NUL off0
        = (Some rest, if sign = CHR ''-'' then - (hh * 60 * 60) else hh * 60 * 60))
   \<and> (\<forall>dp off0. peek dp \<noteq> CHR ''+'' \<and> peek dp \<noteq> CHR ''-'' \<longrightarrow>
      ParseOffset (Some dp) NUL off0 = (None, off0))
   \<and> (\<forall>sign hh rest off0. 24 \<le> hh \<and> hh \<le> 99 \<longrightarrow>
      ParseOffset (Some (sign # Format02d rest hh)) NUL off0 = (None, off0))
   \<and> (\<forall>sign d rest off0. 0 \<le> d \<and> d \<le> 9 \<and> \<not> isdigit (peek rest) \<longrightarrow>
      ParseOffset (Some (sign # kDigits_at d # rest)) NUL off0 = (None, off0))
   \<and> (\<forall>sign rest off0. \<not> isdigit (peek rest) \<longrightarrow>
      ParseOffset (Some (sign # rest)) NUL off0 = (None, off0))"
proof (intro conjI allI impI)
  fix sign :: char and hh mm :: int and rest :: string and off0 :: int
  assume "(sign = CHR ''+'' \<or> sign = CHR ''-'') \<and> 0 \<le> hh \<and> hh \<le> 23 \<and> 0 \<le> mm \<and> mm \<le> 59"
  then show "ParseOffset (Some (sign # Format02d (Format02d rest mm) hh)) NUL off0
        = (Some rest, if sign = CHR ''-'' then - ((hh * 60 + mm) * 60) else (hh * 60 + mm) * 60)"
    by (auto simp: ParseOffset_def peek_Cons ParseInt_Format02d Format02d_length)
next
  fix sign :: char and hh mm :: int and rest :: string and off0 :: int
  assume "(sign = CHR ''+'' \<or> sign = CHR ''-'') \<and> 0 \<le> hh \<and> hh \<le> 23 \<and> 60 \<le> mm \<and> mm \<le> 99"
  then show "ParseOffset (Some (sign # Format02d (Format02d rest mm) hh)) NUL off0
        = (Some (Format02d rest mm), if sign = CHR ''-'' then - (hh * 60 * 60) else hh * 60 * 60)"
    by (auto simp: ParseOffset_def peek_Cons ParseInt_Format02d Format02d_length)
next
  fix sign :: char and hh :: int and rest :: string and off0 :: int
  assume "(sign = CHR ''+'' \<or> sign = CHR ''-'') \<and> 0 \<le> hh \<and> hh \<le> 23 \<and> \<not> isdigit (peek rest)"
  then show "ParseOffset (Some (sign # Format02d rest hh)) NUL off0
        = (Some rest, if sign = CHR ''-'' then - (hh * 60 * 60) else hh * 60 * 60)"
    by (auto simp: ParseOffset_def peek_Cons ParseInt_Format02d Format02d_length ParseInt_nondigit)
next
  fix dp :: string and off0 :: int
  assume "peek dp \<noteq> CHR ''+'' \<and> peek dp \<noteq> CHR ''-''"
  then show "ParseOffset (Some dp) NUL off0 = (None, off0)"
    by (simp add: ParseOffset_def)
next
  fix sign :: char and hh :: int and rest :: string and off0 :: int
  assume "24 \<le> hh \<and> hh \<le> 99"
  then show "ParseOffset (Some (sign # Format02d rest hh)) NUL off0 = (None, off0)"
    by (simp add: ParseOffset_def peek_Cons ParseInt_Format02d Let_def)
next
  fix sign :: char and d :: int and rest :: string and off0 :: int
  assume "0 \<le> d \<and> d \<le> 9 \<and> \<not> isdigit (peek rest)"
  then show "ParseOffset (Some (sign # kDigits_at d # rest)) NUL off0 = (None, off0)"
    by (simp add: ParseOffset_def peek_Cons ParseInt_one_digit Let_def)
next
  fix sign :: char and rest :: string and off0 :: int
  assume "\<not> isdigit (peek rest)"
  then show "ParseOffset (Some (sign # rest)) NUL off0 = (None, off0)"
    by (simp add: ParseOffset_def peek_Cons ParseInt_nondigit Let_def)
qed

text \<open>"-0530 x", "+0560", "+05", "+2400" and "+5".\<close>

theorem ParseOffset_z_witness:
  "ParseOffset (Some ''-0530 x'') NUL kintmin = (Some '' x'', - 19800)
   \<and> ParseOffset (Some ''+0560'') NUL kintmin = (Some ''60'', 18000)
   \<and> ParseOffset (Some ''+05'') NUL kintmin = (Some [], 18000)
   \<and> ParseOffset (Some ''+2400'') NUL kintmin = (None, kintmin)
   \<and> ParseOffset (Some ''+5'') NUL kintmin = (None, kintmin)"
proof -
  have f: "Format02d (Format02d '' x'' 30) 5 = ''0530 x''" "Format02d (Format02d [] 60) 5 = ''0560''"
    "Format02d [] 60 = ''60''" "Format02d [] 5 = ''05''"
    "Format02d ''00'' 24 = ''2400''" "Format02d ''60'' 5 = ''0560''" "kDigits_at 5 # [] = ''5''"
    by code_simp+
  have n: "\<not> isdigit (peek [])"
    by code_simp
  from ParseOffset_z [THEN conjunct1, rule_format, of "CHR ''-''" 5 30 "'' x''" kintmin]
  have a: "ParseOffset (Some ''-0530 x'') NUL kintmin = (Some '' x'', - 19800)"
    by (simp add: f)
  from ParseOffset_z [THEN conjunct2, THEN conjunct1, rule_format, of "CHR ''+''" 5 60 "[]" kintmin]
  have b: "ParseOffset (Some ''+0560'') NUL kintmin = (Some ''60'', 18000)"
    by (simp add: f)
  from ParseOffset_z [THEN conjunct2, THEN conjunct2, THEN conjunct1, rule_format,
      of "CHR ''+''" 5 "[]" kintmin] n
  have c: "ParseOffset (Some ''+05'') NUL kintmin = (Some [], 18000)"
    by (simp add: f)
  from ParseOffset_z [THEN conjunct2, THEN conjunct2, THEN conjunct2, THEN conjunct2,
      THEN conjunct1, rule_format, of 24 "CHR ''+''" "''00''" kintmin]
  have d: "ParseOffset (Some ''+2400'') NUL kintmin = (None, kintmin)"
    by (simp add: f)
  from ParseOffset_z [THEN conjunct2, THEN conjunct2, THEN conjunct2, THEN conjunct2,
      THEN conjunct2, THEN conjunct1, rule_format, of 5 "[]" "CHR ''+''" kintmin] n
  have e: "ParseOffset (Some ''+5'') NUL kintmin = (None, kintmin)"
    by (simp add: f)
  from a b c d e show ?thesis by simp
qed

text \<open>The hours alone, and the hours before the minutes 60: the directive succeeds, and so does
  \<^verbatim>\<open>Parse\<close>, in the second case with the digits "60" left to "%S".\<close>

theorem ParseOffset_minutes_optional_counterexample:
  "ParseOffset (Some ''+05'') NUL kintmin = (Some [], 18000)
   \<and> ParseOffset (Some ''+0560'') NUL kintmin = (Some ''60'', 18000)
   \<and> Parse host0 ''%z'' ''+05'' (UTCTimeZone host0) 7 = (True, - 18000000000000)
   \<and> Parse host0 ''%z%S'' ''+0560'' (UTCTimeZone host0) 7 = (True, - 17940000000000)"
  by code_simp

end
